theory Spec2Isabelle
  imports Main "HOL-Library.Word"
begin

unbundle bit_operations_syntax

section \<open>Bytes and formatting\<close>

text \<open>
  A Go \<open>[]byte\<close> or \<open>string\<close> is a \<^typ>\<open>string\<close> (a list of 8-bit characters); the
  20 bytes of a Change-Id are \<^typ>\<open>8 word\<close>s.
\<close>

type_synonym byte = "8 word"

text \<open>\<open>bytes.HasPrefix(s, prefix)\<close>.\<close>

fun HasPrefix :: "string \<Rightarrow> string \<Rightarrow> bool" where
  "HasPrefix s [] = True"
| "HasPrefix [] (p # ps) = False"
| "HasPrefix (c # s) (p # ps) = (c = p \<and> HasPrefix s ps)"

text \<open>\<open>bytes.Contains(b, subslice)\<close>: the subslice occurs at some offset of \<open>b\<close>.\<close>

fun Contains :: "string \<Rightarrow> string \<Rightarrow> bool" where
  "Contains [] sep = (sep = [])"
| "Contains (c # s) sep = (HasPrefix (c # s) sep \<or> Contains s sep)"

text \<open>
  The verb \<open>%x\<close> of \<open>fmt.Sprintf\<close> on a byte slice: two lowercase hexadecimal digits
  per byte, high nibble first.
\<close>

definition hexdigits :: string where
  "hexdigits = ''0123456789abcdef''"

definition hexByte :: "byte \<Rightarrow> string" where
  "hexByte b = [hexdigits ! (unat b div 16), hexdigits ! (unat b mod 16)]"

definition hex :: "byte list \<Rightarrow> string" where
  "hex bs = concat (map hexByte bs)"

text \<open>\<open>strings.Join(elems, sep)\<close>.\<close>

fun joinWith :: "string \<Rightarrow> string list \<Rightarrow> string" where
  "joinWith sep [] = []"
| "joinWith sep [e] = e"
| "joinWith sep (e # es) = e @ sep @ joinWith sep es"

section \<open>Lexical path operations (\<open>path/filepath\<close>), Unix flavour\<close>

text \<open>
  \<open>filepath.Clean\<close>, \<open>filepath.Dir\<close> and \<open>filepath.Join\<close> belong to the Go library, not
  to the program. \<open>Clean\<close> scans the elements between separators from left to right
  and keeps a buffer of the elements written so far: an empty element and \<open>.\<close> are
  skipped; \<open>..\<close> removes the last element of the buffer when there is one it may
  remove (the buffer is longer than the protected prefix \<open>dotdot\<close>), is dropped at
  the root of a rooted path, and is appended (and protected) otherwise; any other
  element is appended.
\<close>

text \<open>The elements of a path: the pieces between \<open>/\<close> separators.\<close>

fun splitPath :: "string \<Rightarrow> string list" where
  "splitPath [] = [[]]"
| "splitPath (c # cs) =
     (if c = CHR ''/'' then [] # splitPath cs
      else (case splitPath cs of [] \<Rightarrow> [[c]] | e # es \<Rightarrow> (c # e) # es))"

fun cleanElems :: "bool \<Rightarrow> nat \<Rightarrow> string list \<Rightarrow> string list \<Rightarrow> string list" where
  "cleanElems rooted dotdot out [] = out"
| "cleanElems rooted dotdot out (e # es) =
     (if e = [] \<or> e = ''.'' then cleanElems rooted dotdot out es
      else if e = ''..'' then
        (if length out > dotdot then cleanElems rooted dotdot (butlast out) es
         else if \<not> rooted then cleanElems rooted (Suc (length out)) (out @ [e]) es
         else cleanElems rooted dotdot out es)
      else cleanElems rooted dotdot (out @ [e]) es)"

definition Clean :: "string \<Rightarrow> string" where
  "Clean path =
     (if path = [] then ''.''
      else
        let rooted = (hd path = CHR ''/'');
            out = cleanElems rooted 0 [] (splitPath path)
        in if rooted then CHR ''/'' # joinWith ''/'' out
           else if out = [] then ''.''
           else joinWith ''/'' out)"

text \<open>
  \<open>Dir\<close> cuts the path after its last separator (giving the empty string when there
  is none) and cleans what is left.
\<close>

definition Dir :: "string \<Rightarrow> string" where
  "Dir path = Clean (rev (dropWhile (\<lambda>c. c \<noteq> CHR ''/'') (rev path)))"

text \<open>\<open>Join\<close> ignores leading empty elements, joins the rest with \<open>/\<close> and cleans.\<close>

definition Join :: "string list \<Rightarrow> string" where
  "Join elem =
     (case dropWhile (\<lambda>e. e = []) elem of
        [] \<Rightarrow> []
      | es \<Rightarrow> Clean (joinWith ''/'' es))"

text \<open>
  What the program takes from the platform: \<open>runtime.GOOS\<close>, \<open>filepath.Separator\<close>,
  \<open>filepath.VolumeName\<close>, \<open>filepath.Dir\<close> and \<open>filepath.Join\<close>. The program is
  modelled over any such platform; \<open>unix\<close> is the one defined above, \<open>windows\<close>
  the one defined below.
\<close>

record platform =
  runtime_GOOS :: string
  filepath_Separator :: char
  filepath_VolumeName :: "string \<Rightarrow> string"
  filepath_Dir :: "string \<Rightarrow> string"
  filepath_Join :: "string list \<Rightarrow> string"

definition unix :: platform where
  "unix = \<lparr> runtime_GOOS = ''linux'',
            filepath_Separator = CHR ''/'',
            filepath_VolumeName = (\<lambda>path. []),
            filepath_Dir = Dir,
            filepath_Join = Join \<rparr>"

section \<open>Lexical path operations, Windows flavour\<close>











section \<open>The operating system\<close>

text \<open>
  The file system is a table from path names to nodes. A regular file has its bytes
  and its permission bits (a Go \<open>os.FileMode\<close>, 32 bits). Conditions the table does
  not hold (access rights, a parent that is missing or not a directory, a failing
  device) are the oracle \<open>fails\<close>: the system call named there fails on that path
  with an error that is not "does not exist". The table and the oracle change only
  through the calls below.
\<close>

datatype node = File (content: string) (mode: "32 word") | Directory

datatype syscall = SysStat | SysReadFile | SysWriteFile | SysRemove

datatype errno = ENOENT | EACCES | EISDIR

datatype oserror =
    PathError string string errno
  | SyscallError string errno
  | EOF
  | ErrUnexpectedEOF

fun errnoText :: "errno \<Rightarrow> string" where
  "errnoText ENOENT = ''no such file or directory''"
| "errnoText EACCES = ''permission denied''"
| "errnoText EISDIR = ''is a directory''"

fun Error :: "oserror \<Rightarrow> string" where
  "Error (PathError opn path e) = opn @ '' '' @ path @ '': '' @ errnoText e"
| "Error (SyscallError call e) = call @ '': '' @ errnoText e"
| "Error EOF = ''EOF''"
| "Error ErrUnexpectedEOF = ''unexpected EOF''"

text \<open>\<open>os.IsNotExist(err)\<close>.\<close>

fun IsNotExist :: "oserror \<Rightarrow> bool" where
  "IsNotExist (PathError opn path e) = (e = ENOENT)"
| "IsNotExist (SyscallError call e) = (e = ENOENT)"
| "IsNotExist EOF = False"
| "IsNotExist ErrUnexpectedEOF = False"

text \<open>
  What a run leaves behind besides the files: the lines printed by \<open>verbosef\<close> and
  every call of \<open>os.Remove\<close> and \<open>ioutil.WriteFile\<close> with its error (\<open>None\<close> is Go's
  \<open>nil\<close>).
\<close>

datatype event =
    Diagnostic string
  | CallRemove string "oserror option"
  | CallWriteFile string "oserror option"

text \<open>
  \<open>wd\<close> is what \<open>os.Getwd\<close> returns (\<open>None\<close>: it fails); \<open>verbose\<close> is the value
  of the program's \<open>*verbose\<close> flag; \<open>entropy\<close> is the bytes \<open>crypto/rand.Reader\<close>
  will deliver.
\<close>

record world =
  files :: "string \<rightharpoonup> node"
  fails :: "syscall \<Rightarrow> string \<Rightarrow> bool"
  wd :: "string option"
  umask :: "32 word"
  verbose :: int
  entropy :: "byte list"
  trace :: "event list"

text \<open>
  The outcome of a call: it returns a value, or the process exits through \<open>dief\<close>
  with a message. Both leave a world behind.
\<close>

datatype 'a exec = Returns 'a world | Dies string world

text \<open>\<open>os.Stat(name)\<close>: only the error is used by the program.\<close>

definition Stat :: "world \<Rightarrow> string \<Rightarrow> oserror option" where
  "Stat w name =
     (if fails w SysStat name then Some (PathError ''stat'' name EACCES)
      else case files w name of
             None \<Rightarrow> Some (PathError ''stat'' name ENOENT)
           | Some n \<Rightarrow> None)"

text \<open>\<open>ioutil.ReadFile(name)\<close>.\<close>

definition ReadFile :: "world \<Rightarrow> string \<Rightarrow> oserror + string" where
  "ReadFile w name =
     (if fails w SysReadFile name then Inl (PathError ''open'' name EACCES)
      else case files w name of
             None \<Rightarrow> Inl (PathError ''open'' name ENOENT)
           | Some Directory \<Rightarrow> Inl (PathError ''read'' name EISDIR)
           | Some (File data m) \<Rightarrow> Inr data)"

text \<open>
  \<open>os.Remove(name)\<close>. (A directory is removed only when it is empty, which the flat
  table does not record: there the oracle alone decides. The program removes only a
  path it has just read as a regular file.)
\<close>

definition Remove :: "string \<Rightarrow> world \<Rightarrow> oserror option \<times> world" where
  "Remove name w =
     (let err = (if fails w SysRemove name then Some (PathError ''remove'' name EACCES)
                 else case files w name of
                        None \<Rightarrow> Some (PathError ''remove'' name ENOENT)
                      | Some n \<Rightarrow> None)
      in (err, w\<lparr> files := (if err = None then (files w)(name := None) else files w),
                  trace := trace w @ [CallRemove name err] \<rparr>))"

text \<open>
  \<open>ioutil.WriteFile(name, data, perm)\<close> opens with \<open>O_WRONLY|O_CREATE|O_TRUNC\<close>: an
  existing regular file keeps its mode and gets the new bytes, a missing one is
  created with \<open>perm\<close> less the process's umask. A failing call is taken to change
  nothing.
\<close>

definition WriteFile :: "string \<Rightarrow> string \<Rightarrow> 32 word \<Rightarrow> world \<Rightarrow> oserror option \<times> world" where
  "WriteFile name data perm w =
     (if fails w SysWriteFile name then
        (Some (PathError ''open'' name EACCES),
         w\<lparr> trace := trace w @ [CallWriteFile name (Some (PathError ''open'' name EACCES))] \<rparr>)
      else case files w name of
             Some Directory \<Rightarrow>
               (Some (PathError ''open'' name EISDIR),
                w\<lparr> trace := trace w @ [CallWriteFile name (Some (PathError ''open'' name EISDIR))] \<rparr>)
           | Some (File old m) \<Rightarrow>
               (None, w\<lparr> files := (files w)(name \<mapsto> File data m),
                         trace := trace w @ [CallWriteFile name None] \<rparr>)
           | None \<Rightarrow>
               (None, w\<lparr> files := (files w)(name \<mapsto> File data (perm AND NOT (umask w))),
                         trace := trace w @ [CallWriteFile name None] \<rparr>))"

text \<open>\<open>os.Getwd()\<close>.\<close>

definition Getwd :: "world \<Rightarrow> oserror + string" where
  "Getwd w = (case wd w of None \<Rightarrow> Inl (SyscallError ''getwd'' ENOENT) | Some dir \<Rightarrow> Inr dir)"

text \<open>
  \<open>io.ReadFull(rand.Reader, buf)\<close> for a buffer of \<open>n\<close> bytes: all \<open>n\<close> bytes, or an
  error when the source cannot deliver them (\<open>EOF\<close> when it delivers none,
  \<open>ErrUnexpectedEOF\<close> when it delivers some).
\<close>

definition ReadFull :: "nat \<Rightarrow> world \<Rightarrow> (oserror + byte list) \<times> world" where
  "ReadFull n w =
     (if n \<le> length (entropy w)
      then (Inr (take n (entropy w)), w\<lparr> entropy := drop n (entropy w) \<rparr>)
      else if entropy w = [] then (Inl EOF, w)
      else (Inl ErrUnexpectedEOF, w\<lparr> entropy := [] \<rparr>))"

section \<open>Diagnostics and fatal errors\<close>

text \<open>
  Modelled from the spec: \<open>verbosef\<close> is defined outside \<open>hook.go\<close>. It reports a
  diagnostic only when the verbosity mode is enabled (\<open>*verbose > 0\<close>) and never
  affects control flow. The message is passed already formatted.
\<close>

definition verbosef :: "string \<Rightarrow> world \<Rightarrow> world" where
  "verbosef msg w = (if verbose w > 0 then w\<lparr> trace := trace w @ [Diagnostic msg] \<rparr> else w)"

text \<open>
  Modelled from the spec: \<open>dief\<close> is defined outside \<open>hook.go\<close>. A fatal condition
  terminates the process with a non-zero status and a diagnostic message on the error
  stream. The message is passed already formatted.
\<close>

definition dief :: "string \<Rightarrow> world \<Rightarrow> 'a exec" where
  "dief msg w = Dies msg w"

section \<open>\<open>hook.go\<close>\<close>

definition hookPath :: string where
  "hookPath = ''.git/hooks/''"

definition hookFiles :: "string list" where
  "hookFiles = [''commit-msg'']"

text \<open>\<open>fmt.Sprintf(hookScript, arg)\<close>: the template with its one \<open>%s\<close> filled in.\<close>

definition hookScript :: "string \<Rightarrow> string" where
  \<open>hookScript arg = ''#!/bin/sh\<newline>exec git-review hook-invoke '' @ arg @ '' "$@"\<newline>''\<close>

text \<open>The old commit-msg shell script, kept only to be compared against.\<close>

definition oldCommitMsgHook :: string where
  \<open>oldCommitMsgHook = concat [
     ''#!/bin/sh\<newline>'',
     ''# From Gerrit Code Review 2.2.1\<newline>'',
     ''#\<newline>'',
     ''# Part of Gerrit Code Review (http://code.google.com/p/gerrit/)\<newline>'',
     ''#\<newline>'',
     ''# Copyright (C) 2009 The Android Open Source Project\<newline>'',
     ''#\<newline>'',
     ''# Licensed under the Apache License, Version 2.0 (the "License");\<newline>'',
     ''# you may not use this file except in compliance with the License.\<newline>'',
     ''# You may obtain a copy of the License at\<newline>'',
     ''#\<newline>'',
     ''# http://www.apache.org/licenses/LICENSE-2.0\<newline>'',
     ''#\<newline>'',
     ''# Unless required by applicable law or agreed to in writing, software\<newline>'',
     ''# distributed under the License is distributed on an "AS IS" BASIS,\<newline>'',
     ''# WITHOUT WARRANTIES OR CONDITIONS OF ANY KIND, either express or implied.\<newline>'',
     ''# See the License for the specific language governing permissions and\<newline>'',
     ''# limitations under the License.\<newline>'',
     ''#\<newline>'',
     ''\<newline>'',
     ''CHANGE_ID_AFTER="Bug|Issue"\<newline>'',
     ''MSG="$1"\<newline>'',
     ''\<newline>'',
     ''# Check for, and add if missing, a unique Change-Id\<newline>'',
     ''#\<newline>'',
     ''add_ChangeId() {\<newline>'',
     ''	clean_message=`sed -e '\<newline>'',
     (''		/^diff --git a'' @ [CHR 0x5C] @ ''/.*/{\<newline>''),
     ''			s///\<newline>'',
     ''			q\<newline>'',
     ''		}\<newline>'',
     ''		/^Signed-off-by:/d\<newline>'',
     ''		/^#/d\<newline>'',
     ''	' "$MSG" | git stripspace`\<newline>'',
     ''	if test -z "$clean_message"\<newline>'',
     ''	then\<newline>'',
     ''		return\<newline>'',
     ''	fi\<newline>'',
     ''\<newline>'',
     ''	if grep -i '^Change-Id:' "$MSG" >/dev/null\<newline>'',
     ''	then\<newline>'',
     ''		return\<newline>'',
     ''	fi\<newline>'',
     ''\<newline>'',
     ''	id=`_gen_ChangeId`\<newline>'',
     ''	perl -e '\<newline>'',
     ''		$MSG = shift;\<newline>'',
     ''		$id = shift;\<newline>'',
     ''		$CHANGE_ID_AFTER = shift;\<newline>'',
     ''\<newline>'',
     ''		undef $/;\<newline>'',
     ''		open(I, $MSG); $_ = <I>; close I;\<newline>'',
     ''		s|^diff --git a/.*||ms;\<newline>'',
     ''		s|^#.*$||mg;\<newline>'',
     ''		exit unless $_;\<newline>'',
     ''\<newline>'',
     (''		@message = split /'' @ [CHR 0x5C] @ ''n/;\<newline>''),
     ''		$haveFooter = 0;\<newline>'',
     ''		$startFooter = @message;\<newline>'',
     ''		for($line = @message - 1; $line >= 0; $line--) {\<newline>'',
     ''			$_ = $message[$line];\<newline>'',
     ''\<newline>'',
     ''			if (/^[a-zA-Z0-9-]+:/ && !m,^[a-z0-9-]+://,) {\<newline>'',
     ''				$haveFooter++;\<newline>'',
     ''				next;\<newline>'',
     ''			}\<newline>'',
     ''			next if /^[ []/;\<newline>'',
     (''			$startFooter = $line if ($haveFooter && /^'' @ [CHR 0x5C] @ ''r?$/);\<newline>''),
     ''			last;\<newline>'',
     ''		}\<newline>'',
     ''\<newline>'',
     ''		@footer = @message[$startFooter+1..@message];\<newline>'',
     ''		@message = @message[0..$startFooter];\<newline>'',
     ''		push(@footer, "") unless @footer;\<newline>'',
     ''\<newline>'',
     ''		for ($line = 0; $line < @footer; $line++) {\<newline>'',
     ''			$_ = $footer[$line];\<newline>'',
     ''			next if /^($CHANGE_ID_AFTER):/i;\<newline>'',
     ''			last;\<newline>'',
     ''		}\<newline>'',
     ''		splice(@footer, $line, 0, "Change-Id: I$id");\<newline>'',
     ''\<newline>'',
     (''		$_ = join("'' @ [CHR 0x5C] @ ''n", @message, @footer);\<newline>''),
     ''		open(O, ">$MSG"); print O; close O;\<newline>'',
     ''	' "$MSG" "$id" "$CHANGE_ID_AFTER"\<newline>'',
     ''}\<newline>'',
     ''_gen_ChangeIdInput() {\<newline>'',
     ''	echo "tree `git write-tree`"\<newline>'',
     ''	if parent=`git rev-parse HEAD^0 2>/dev/null`\<newline>'',
     ''	then\<newline>'',
     ''		echo "parent $parent"\<newline>'',
     ''	fi\<newline>'',
     ''	echo "author `git var GIT_AUTHOR_IDENT`"\<newline>'',
     ''	echo "committer `git var GIT_COMMITTER_IDENT`"\<newline>'',
     ''	echo\<newline>'',
     ''	printf '%s' "$clean_message"\<newline>'',
     ''}\<newline>'',
     ''_gen_ChangeId() {\<newline>'',
     ''	_gen_ChangeIdInput |\<newline>'',
     ''	git hash-object -t commit --stdin\<newline>'',
     ''}\<newline>'',
     ''\<newline>'',
     ''\<newline>'',
     ''add_ChangeId\<newline>'']\<close>

subsection \<open>\<open>repoRoot\<close>\<close>

definition rootlen :: "platform \<Rightarrow> string \<Rightarrow> nat" where
  "rootlen P dir =
     1 + (if runtime_GOOS P = ''windows'' then length (filepath_VolumeName P dir) else 0)"

text \<open>The \<open>for\<close> loop of \<open>repoRoot\<close>; it has no bound, so not returning is \<open>None\<close>.\<close>

partial_function (option) repoRootLoop :: "platform \<Rightarrow> world \<Rightarrow> nat \<Rightarrow> string \<Rightarrow> string exec option" where
  "repoRootLoop P w rl dir =
     (if Stat w (filepath_Join P [dir, ''.git'']) = None then Some (Returns dir w)
      else if length dir = rl \<and> dir ! (rl - 1) = filepath_Separator P
      then Some (dief ''git root not found. Rerun from within the Git tree.'' w)
      else repoRootLoop P w rl (filepath_Dir P dir))"

declare repoRootLoop.simps [code]

definition repoRoot :: "platform \<Rightarrow> world \<Rightarrow> string exec option" where
  "repoRoot P w =
     (case Getwd w of
        Inl err \<Rightarrow> Some (dief (''could not get current directory: '' @ Error err) w)
      | Inr dir \<Rightarrow> repoRootLoop P w (rootlen P dir) dir)"

subsection \<open>\<open>installHook\<close>\<close>

text \<open>
  The special case at the head of the loop body: an old commit-msg shell script is
  removed. The result of \<open>os.Remove\<close> is dropped.
\<close>

definition removeOldHook :: "string \<Rightarrow> string \<Rightarrow> world \<Rightarrow> world" where
  "removeOldHook hookFile filename w =
     (if hookFile = ''commit-msg'' then
        (case ReadFile w filename of
           Inl err \<Rightarrow> w
         | Inr data \<Rightarrow>
             if data = oldCommitMsgHook
             then snd (Remove filename (verbosef ''removing old commit-msg hook'' w))
             else w)
      else w)"

text \<open>
  The rest of the loop body: an existing hook file is assumed to be okay (and only
  looked at when verbose); a missing one is written with mode 0700 (\<open>0x1C0\<close>).
\<close>

definition writeHook :: "string \<Rightarrow> string \<Rightarrow> world \<Rightarrow> unit exec" where
  "writeHook hookFile filename w =
     (let hookContent = hookScript hookFile in
      case Stat w filename of
        None \<Rightarrow>
          Returns ()
            (if verbose w > 0 then
               (case ReadFile w filename of
                  Inl err \<Rightarrow> verbosef (''reading hook: '' @ Error err) w
                | Inr data \<Rightarrow>
                    if data \<noteq> hookContent
                    then verbosef (''unexpected hook content in '' @ filename) w
                    else w)
             else w)
      | Some err \<Rightarrow>
          if \<not> IsNotExist err then dief (''checking hook: '' @ Error err) w
          else
            (case WriteFile filename hookContent 0x1C0
                    (verbosef (''installing '' @ hookFile @ '' hook'') w) of
               (Some werr, w') \<Rightarrow> dief (''writing hook: '' @ Error werr) w'
             | (None, w') \<Rightarrow> Returns () w'))"

text \<open>One round of the loop, for one hook name.\<close>

definition installHookFile :: "platform \<Rightarrow> string \<Rightarrow> world \<Rightarrow> unit exec option" where
  "installHookFile P hookFile w =
     (case repoRoot P w of
        None \<Rightarrow> None
      | Some (Dies msg w') \<Rightarrow> Some (Dies msg w')
      | Some (Returns root w') \<Rightarrow>
          (let filename = filepath_Join P [root, hookPath @ hookFile]
           in Some (writeHook hookFile filename (removeOldHook hookFile filename w'))))"

fun installLoop :: "platform \<Rightarrow> string list \<Rightarrow> world \<Rightarrow> unit exec option" where
  "installLoop P [] w = Some (Returns () w)"
| "installLoop P (hookFile # rest) w =
     (case installHookFile P hookFile w of
        None \<Rightarrow> None
      | Some (Dies msg w') \<Rightarrow> Some (Dies msg w')
      | Some (Returns u w') \<Rightarrow> installLoop P rest w')"

definition installHook :: "platform \<Rightarrow> world \<Rightarrow> unit exec option" where
  "installHook P w = installLoop P hookFiles w"

subsection \<open>\<open>hookCommitMsg\<close> and \<open>hookInvoke\<close>\<close>

text \<open>The loop \<open>for n > 0 && data[n-1] == '\n' { n-- }\<close>, started at \<open>n\<close>.\<close>

fun trimNewlines :: "string \<Rightarrow> nat \<Rightarrow> nat" where
  "trimNewlines data 0 = 0"
| "trimNewlines data (Suc n) =
     (if data ! n = CHR ''\<newline>'' then trimNewlines data n else Suc n)"

text \<open>Mode 0666 is \<open>0x1B6\<close>.\<close>

definition hookCommitMsg :: "string list \<Rightarrow> world \<Rightarrow> unit exec" where
  "hookCommitMsg args w =
     (if length args \<noteq> 1
      then dief ''usage: git-review hook-invoke commit-msg message.txt\<newline>'' w
      else
        (let file = args ! 0 in
         (case ReadFile w file of
            Inl err \<Rightarrow> dief (Error err) w
          | Inr data \<Rightarrow>
              (if Contains data ''\<newline>Change-Id: '' then Returns () w
               else
                 (let n = trimNewlines data (length data) in
                  (case ReadFull 20 w of
                     (Inl err, w1) \<Rightarrow> dief (''generating Change-Id: '' @ Error err) w1
                   | (Inr ident, w1) \<Rightarrow>
                       (let data' = take n data @ ''\<newline>\<newline>Change-Id: I'' @ hex ident @ ''\<newline>''
                        in (case WriteFile file data' 0x1B6 w1 of
                              (Some err, w2) \<Rightarrow> dief (Error err) w2
                            | (None, w2) \<Rightarrow> Returns () w2))))))))"

definition hookInvoke :: "string list \<Rightarrow> world \<Rightarrow> unit exec" where
  "hookInvoke args w =
     (if length args = 0
      then dief ''usage: git-review hook-invoke <hook-name> [args...]'' w
      else if args ! 0 = ''commit-msg'' then hookCommitMsg (drop 1 args) w
      else Returns () w)"

section \<open>Auxiliary definitions for the proofs\<close>

text \<open>What \<open>hookCommitMsg\<close> writes when it adds a Change-Id made of \<open>ident\<close>.\<close>

definition appended :: "string \<Rightarrow> byte list \<Rightarrow> string" where
  "appended data ident =
     take (trimNewlines data (length data)) data
       @ ''\<newline>\<newline>Change-Id: I'' @ hex ident @ ''\<newline>''"

text \<open>A world with one commit message file, mode 0644, and 22 bytes of entropy.\<close>

definition msgWorld :: "string \<Rightarrow> world" where
  "msgWorld data =
     \<lparr> files = [''COMMIT_EDITMSG'' \<mapsto> File data 0x1A4],
       fails = (\<lambda>call name. False),
       wd = Some ''/repo'',
       umask = 0x12,
       verbose = 0,
       entropy = [0, 1, 2, 3, 4, 5, 6, 7, 8, 9, 10, 11, 12, 13, 14, 15, 16, 17, 18, 19, 20, 21],
       trace = [] \<rparr>"

text \<open>A rooted path begins with the separator.\<close>

definition rooted :: "string \<Rightarrow> bool" where
  "rooted path = (path \<noteq> [] \<and> hd path = CHR ''/'')"

text \<open>
  A path element that names a file or directory: not empty, not \<open>.\<close>, not \<open>..\<close>,
  and without a separator.
\<close>

definition normalName :: "string \<Rightarrow> bool" where
  "normalName e = (e \<noteq> [] \<and> e \<noteq> ''.'' \<and> e \<noteq> ''..'' \<and> CHR ''/'' \<notin> set e)"

text \<open>The rooted path whose elements are \<open>names\<close>: \<open>/\<close> for none, \<open>/a/b\<close> for two.\<close>

definition absPath :: "string list \<Rightarrow> string" where
  "absPath names = CHR ''/'' # joinWith ''/'' names"

text \<open>The directory reached from \<open>dir\<close> by \<open>k\<close> steps of \<open>filepath.Dir\<close>.\<close>

definition ancestor :: "platform \<Rightarrow> nat \<Rightarrow> string \<Rightarrow> string" where
  "ancestor P k dir = (filepath_Dir P ^^ k) dir"

text \<open>The test of \<open>repoRoot\<close> for the marker: \<open>os.Stat\<close> succeeds on \<open>dir/.git\<close>.\<close>

definition hasGit :: "platform \<Rightarrow> world \<Rightarrow> string \<Rightarrow> bool" where
  "hasGit P w dir = (Stat w (filepath_Join P [dir, ''.git'']) = None)"

text \<open>
  The test of \<open>repoRoot\<close> for the file system root, with \<open>rootlen\<close> computed from
  the working directory \<open>cwd\<close>.
\<close>

definition atRoot :: "platform \<Rightarrow> string \<Rightarrow> string \<Rightarrow> bool" where
  "atRoot P cwd dir =
     (length dir = rootlen P cwd \<and> dir ! (rootlen P cwd - 1) = filepath_Separator P)"

text \<open>The world a call leaves behind.\<close>

fun after :: "'a exec \<Rightarrow> world" where
  "after (Returns x w) = w"
| "after (Dies msg w) = w"








text \<open>The events a run added to the trace: those of \<open>w'\<close> after those of \<open>w\<close>.\<close>

definition since :: "world \<Rightarrow> world \<Rightarrow> event list" where
  "since w w' = drop (length (trace w)) (trace w')"

text \<open>The lines printed by \<open>verbosef\<close> among some events.\<close>

fun diagnostics :: "event list \<Rightarrow> string list" where
  "diagnostics [] = []"
| "diagnostics (Diagnostic msg # evs) = msg # diagnostics evs"
| "diagnostics (CallRemove p err # evs) = diagnostics evs"
| "diagnostics (CallWriteFile p err # evs) = diagnostics evs"

text \<open>
  A repository at \<open>/repo\<close>, seen from \<open>/repo/sub\<close>: \<open>hook\<close> is what lies at the
  commit-msg hook path, \<open>denied\<close> names the system calls that fail on that path, and
  \<open>v\<close> is the verbosity.
\<close>

definition hookFilePath :: string where
  "hookFilePath = ''/repo/.git/hooks/commit-msg''"

definition repoWorld :: "node option \<Rightarrow> (syscall \<Rightarrow> bool) \<Rightarrow> int \<Rightarrow> world" where
  "repoWorld hook denied v =
     \<lparr> files = ([''/repo/.git'' \<mapsto> Directory, ''/repo/.git/hooks'' \<mapsto> Directory])
                 (hookFilePath := hook),
       fails = (\<lambda>call name. denied call \<and> name = hookFilePath),
       wd = Some ''/repo/sub'',
       umask = 0x12,
       verbose = v,
       entropy = [],
       trace = [] \<rparr>"

definition nothingDenied :: "syscall \<Rightarrow> bool" where
  "nothingDenied call = False"

definition removeDenied :: "syscall \<Rightarrow> bool" where
  "removeDenied call = (call = SysRemove)"

text \<open>A hook script of the user's own.\<close>

definition customHook :: string where
  "customHook = ''#!/bin/sh\<newline>echo custom\<newline>''"

section \<open>Bytes: searching, trimming, hexadecimal\<close>

lemma HasPrefix_iff: "HasPrefix s p \<longleftrightarrow> (\<exists>b. s = p @ b)"
  by (induction s p rule: HasPrefix.induct) auto

lemma Contains_iff: "Contains s sep \<longleftrightarrow> (\<exists>a b. s = a @ sep @ b)"
proof (induction s)
  case Nil
  then show ?case by auto
next
  case (Cons c s)
  show ?case
  proof
    assume "Contains (c # s) sep"
    then consider "HasPrefix (c # s) sep" | "Contains s sep" by auto
    then show "\<exists>a b. c # s = a @ sep @ b"
    proof cases
      case 1
      then obtain b where "c # s = sep @ b" by (auto simp: HasPrefix_iff)
      then have "c # s = [] @ sep @ b" by simp
      then show ?thesis by blast
    next
      case 2
      then obtain a b where "s = a @ sep @ b" using Cons.IH by auto
      then have "c # s = (c # a) @ sep @ b" by simp
      then show ?thesis by blast
    qed
  next
    assume "\<exists>a b. c # s = a @ sep @ b"
    then obtain a b where ab: "c # s = a @ sep @ b" by blast
    show "Contains (c # s) sep"
    proof (cases a)
      case Nil
      with ab have "HasPrefix (c # s) sep" by (auto simp: HasPrefix_iff)
      then show ?thesis by simp
    next
      case (Cons x a')
      with ab have "s = a' @ sep @ b" by simp
      then have "Contains s sep" using Cons.IH by blast
      then show ?thesis by simp
    qed
  qed
qed

lemma trimNewlines_le: "trimNewlines data n \<le> n"
  by (induction n) auto

lemma trimNewlines_tail:
  "trimNewlines data n \<le> i \<Longrightarrow> i < n \<Longrightarrow> data ! i = CHR ''\<newline>''"
proof (induction n)
  case 0
  then show ?case by simp
next
  case (Suc n)
  then show ?case
    by (cases "data ! n = CHR ''\<newline>''") (auto simp: less_Suc_eq)
qed

lemma trimNewlines_last:
  "trimNewlines data n = 0 \<or> data ! (trimNewlines data n - 1) \<noteq> CHR ''\<newline>''"
  by (induction n) auto

lemma trimNewlines_split:
  assumes "n = trimNewlines data (length data)"
  shows "data = take n data @ replicate (length data - n) CHR ''\<newline>''"
    and "take n data = [] \<or> last (take n data) \<noteq> CHR ''\<newline>''"
proof -
  have le: "n \<le> length data" using assms trimNewlines_le by simp
  have "drop n data = replicate (length data - n) CHR ''\<newline>''"
  proof (rule nth_equalityI)
    show "length (drop n data) = length (replicate (length data - n) CHR ''\<newline>'')" by simp
  next
    fix i assume "i < length (drop n data)"
    then have i: "n + i < length data" by simp
    have "data ! (n + i) = CHR ''\<newline>''"
      using trimNewlines_tail [of data "length data" "n + i"] i assms by simp
    then show "drop n data ! i = replicate (length data - n) CHR ''\<newline>'' ! i"
      using i le by simp
  qed
  then show "data = take n data @ replicate (length data - n) CHR ''\<newline>''"
    by (metis append_take_drop_id)
  show "take n data = [] \<or> last (take n data) \<noteq> CHR ''\<newline>''"
  proof (cases "n = 0")
    case True
    then show ?thesis by simp
  next
    case False
    then have "data ! (n - 1) \<noteq> CHR ''\<newline>''"
      using trimNewlines_last [of data "length data"] assms by auto
    moreover have "last (take n data) = data ! (n - 1)"
    proof -
      have ne: "take n data \<noteq> []" using False le by auto
      have "length (take n data) = n" using le by simp
      then show ?thesis using last_conv_nth [OF ne] False by simp
    qed
    ultimately show ?thesis by simp
  qed
qed

lemma hexdigit_in: "n < 16 \<Longrightarrow> hexdigits ! n \<in> set hexdigits"
proof -
  assume n: "n < 16"
  have "length hexdigits = 16" by (simp add: hexdigits_def)
  with n show ?thesis by (simp add: nth_mem)
qed

lemma set_hexByte: "set (hexByte b) \<subseteq> set hexdigits"
proof -
  have "unat b < 2 ^ LENGTH(8)" by (rule unsigned_less)
  then have "unat b < 256" by simp
  then have "unat b div 16 < 16" by simp
  moreover have "unat b mod 16 < 16" by simp
  ultimately show ?thesis unfolding hexByte_def using hexdigit_in by simp
qed

lemma set_hex: "set (hex bs) \<subseteq> set hexdigits"
  using set_hexByte by (auto simp: hex_def)

lemma length_hex: "length (hex bs) = 2 * length bs"
  by (induction bs) (auto simp: hex_def hexByte_def)

section \<open>The commit-msg handler\<close>

lemma ReadFile_Inr_iff:
  "ReadFile w name = Inr data \<longleftrightarrow>
     (\<not> fails w SysReadFile name \<and> (\<exists>m. files w name = Some (File data m)))"
  by (auto simp: ReadFile_def split: option.splits node.splits)

lemma hookCommitMsg_present:
  assumes "ReadFile w file = Inr data" and "Contains data ''\<newline>Change-Id: ''"
  shows "hookCommitMsg [file] w = Returns () w"
  using assms by (simp add: hookCommitMsg_def)

lemma hookCommitMsg_absent:
  assumes "files w file = Some (File data m)" and "\<not> fails w SysReadFile file"
    and "\<not> Contains data ''\<newline>Change-Id: ''"
    and "20 \<le> length (entropy w)" and "\<not> fails w SysWriteFile file"
  shows "hookCommitMsg [file] w =
           Returns () (w\<lparr> files := (files w)(file \<mapsto> File (appended data (take 20 (entropy w))) m),
                          entropy := drop 20 (entropy w),
                          trace := trace w @ [CallWriteFile file None] \<rparr>)"
proof -
  have r: "ReadFile w file = Inr data" using assms by (simp add: ReadFile_Inr_iff)
  show ?thesis
    using assms r
    by (simp add: hookCommitMsg_def ReadFull_def WriteFile_def appended_def Let_def)
qed

lemma hookCommitMsg_Returns:
  assumes "hookCommitMsg args w = Returns u w'"
  shows "\<exists>file data m. args = [file] \<and> files w file = Some (File data m)
           \<and> \<not> fails w SysReadFile file
           \<and> (if Contains data ''\<newline>Change-Id: '' then w' = w
               else 20 \<le> length (entropy w) \<and> \<not> fails w SysWriteFile file
                  \<and> w' = w\<lparr> files := (files w)(file \<mapsto> File (appended data (take 20 (entropy w))) m),
                          entropy := drop 20 (entropy w),
                          trace := trace w @ [CallWriteFile file None] \<rparr>)"
proof -
  have len: "length args = 1"
    using assms by (auto simp: hookCommitMsg_def dief_def split: if_splits)
  then obtain fname where args: "args = [fname]"
    by (cases args) auto
  obtain data where r: "ReadFile w fname = Inr data"
    using assms args by (cases "ReadFile w fname") (auto simp: hookCommitMsg_def dief_def)
  then obtain m where f: "files w fname = Some (File data m)" and nf: "\<not> fails w SysReadFile fname"
    by (auto simp: ReadFile_Inr_iff)
  show ?thesis
  proof (cases "Contains data ''\<newline>Change-Id: ''")
    case True
    then have "w' = w" using assms args r by (simp add: hookCommitMsg_def)
    with True args f nf show ?thesis by auto
  next
    case False
    have e: "20 \<le> length (entropy w)"
      using assms args r False
      by (auto simp: hookCommitMsg_def dief_def ReadFull_def Let_def split: if_splits)
    have wf: "\<not> fails w SysWriteFile fname"
      using assms args r False e
      by (auto simp: hookCommitMsg_def dief_def ReadFull_def WriteFile_def Let_def split: if_splits)
    from hookCommitMsg_absent [OF f nf False e wf] assms args
    have "w' = w\<lparr> files := (files w)(fname \<mapsto> File (appended data (take 20 (entropy w))) m),
                          entropy := drop 20 (entropy w),
                          trace := trace w @ [CallWriteFile fname None] \<rparr>" by simp
    with False e wf args f nf show ?thesis by auto
  qed
qed

lemma appended_Contains: "Contains (appended data ident) ''\<newline>Change-Id: ''"
proof -
  have "appended data ident =
          (take (trimNewlines data (length data)) data @ ''\<newline>'')
            @ ''\<newline>Change-Id: '' @ (''I'' @ hex ident @ ''\<newline>'')"
    by (simp add: appended_def)
  then show ?thesis unfolding Contains_iff by blast
qed

lemma appended_split:
  "\<exists>t k. data = t @ replicate k CHR ''\<newline>'' \<and> (t = [] \<or> last t \<noteq> CHR ''\<newline>'')
       \<and> appended data ident = t @ ''\<newline>\<newline>Change-Id: I'' @ hex ident @ ''\<newline>''"
proof -
  define n where "n = trimNewlines data (length data)"
  from trimNewlines_split [OF n_def]
  have "data = take n data @ replicate (length data - n) CHR ''\<newline>''"
    and "take n data = [] \<or> last (take n data) \<noteq> CHR ''\<newline>''" by auto
  moreover have "appended data ident = take n data @ ''\<newline>\<newline>Change-Id: I'' @ hex ident @ ''\<newline>''"
    by (simp add: appended_def n_def)
  ultimately show ?thesis by blast
qed

lemma trimmed_unique:
  assumes "t @ replicate k c = t' @ replicate k' c"
    and "t = [] \<or> last t \<noteq> c" and "t' = [] \<or> last t' \<noteq> c"
  shows "t = t'"
  using assms
proof (induction k arbitrary: k')
  case 0
  then show ?case
  proof (cases k')
    case 0
    with "0.prems" show ?thesis by simp
  next
    case (Suc j)
    with "0.prems" have "t = (t' @ replicate j c) @ [c]"
      by (simp add: replicate_append_same)
    then have "t \<noteq> [] \<and> last t = c" by simp
    with "0.prems" show ?thesis by simp
  qed
next
  case (Suc k)
  show ?case
  proof (cases k')
    case 0
    with Suc.prems have "t' = (t @ replicate k c) @ [c]"
      by (simp add: replicate_append_same)
    then have "t' \<noteq> [] \<and> last t' = c" by simp
    with Suc.prems show ?thesis by simp
  next
    case (Suc j)
    with Suc.prems have "(t @ replicate k c) @ [c] = (t' @ replicate j c) @ [c]"
      by (simp add: replicate_append_same)
    then have "t @ replicate k c = t' @ replicate j c" by simp
    with Suc.IH Suc.prems show ?thesis by blast
  qed
qed

text \<open>
  Claim C1. When the message file holds no \<open>"\nChange-Id: "\<close> and the read, the
  random source and the write succeed, \<open>hookCommitMsg\<close> rewrites the file to the old
  content without its trailing newlines, then two newlines, \<open>Change-Id: I\<close>, the 40
  lowercase hexadecimal digits of the 20 random bytes, and one newline. For
  \<open>"fix bug\n"\<close> that is \<open>"fix bug\n\nChange-Id: I<40 hex digits>\n"\<close>.
\<close>

theorem hookCommitMsg_appends_ChangeId:
  assumes "files w file = Some (File data m)" and "\<not> fails w SysReadFile file"
    and "\<not> (\<exists>a b. data = a @ ''\<newline>Change-Id: '' @ b)"
    and "20 \<le> length (entropy w)" and "\<not> fails w SysWriteFile file"
  shows "\<exists>t k ident w'.
           data = t @ replicate k CHR ''\<newline>'' \<and> (t = [] \<or> last t \<noteq> CHR ''\<newline>'')
         \<and> ident = take 20 (entropy w) \<and> length ident = 20
         \<and> length (hex ident) = 40 \<and> set (hex ident) \<subseteq> set ''0123456789abcdef''
         \<and> hookCommitMsg [file] w = Returns () w'
         \<and> files w' = (files w)(file \<mapsto> File (t @ ''\<newline>\<newline>Change-Id: I'' @ hex ident @ ''\<newline>'') m)
         \<and> (data = ''fix bug\<newline>'' \<longrightarrow>
              files w' file = Some (File (''fix bug\<newline>\<newline>Change-Id: I'' @ hex ident @ ''\<newline>'') m))"
proof -
  define ident where "ident = take 20 (entropy w)"
  have nc: "\<not> Contains data ''\<newline>Change-Id: ''" using assms(3) by (simp add: Contains_iff)
  obtain t k where tk: "data = t @ replicate k CHR ''\<newline>''"
      "t = [] \<or> last t \<noteq> CHR ''\<newline>''"
      "appended data ident = t @ ''\<newline>\<newline>Change-Id: I'' @ hex ident @ ''\<newline>''"
    using appended_split by blast
  define w' where "w' = w\<lparr> files := (files w)(file \<mapsto> File (appended data ident) m),
                          entropy := drop 20 (entropy w),
                          trace := trace w @ [CallWriteFile file None] \<rparr>"
  have run: "hookCommitMsg [file] w = Returns () w'"
    using hookCommitMsg_absent [OF assms(1,2) nc assms(4,5)] by (simp add: w'_def ident_def)
  have fs: "files w' = (files w)(file \<mapsto> File (t @ ''\<newline>\<newline>Change-Id: I'' @ hex ident @ ''\<newline>'') m)"
    by (simp add: w'_def tk(3))
  have len: "length ident = 20" using assms(4) by (simp add: ident_def)
  have hl: "length (hex ident) = 40" by (simp add: length_hex len)
  have hs: "set (hex ident) \<subseteq> set ''0123456789abcdef''"
    using set_hex [of ident] by (simp add: hexdigits_def)
  have fixbug: "data = ''fix bug\<newline>'' \<longrightarrow>
              files w' file = Some (File (''fix bug\<newline>\<newline>Change-Id: I'' @ hex ident @ ''\<newline>'') m)"
  proof
    assume d: "data = ''fix bug\<newline>''"
    have e: "''fix bug\<newline>'' = ''fix bug'' @ replicate 1 CHR ''\<newline>''" by simp
    have "t @ replicate k CHR ''\<newline>'' = data" by (rule tk(1) [symmetric])
    also have "\<dots> = ''fix bug\<newline>''" by (rule d)
    finally have "t @ replicate k CHR ''\<newline>'' = ''fix bug'' @ replicate 1 CHR ''\<newline>''"
      by (simp only: e)
    then have "t = ''fix bug''"
      by (rule trimmed_unique) (use tk(2) in auto)
    then show "files w' file = Some (File (''fix bug\<newline>\<newline>Change-Id: I'' @ hex ident @ ''\<newline>'') m)"
      by (simp add: fs)
  qed
  show ?thesis
    using tk(1,2) len hl hs run fs fixbug ident_def by blast
qed

text \<open>Claim C1 at a concrete input.\<close>

theorem hookCommitMsg_appends_ChangeId_witness:
  "\<exists>w'. hookCommitMsg [''COMMIT_EDITMSG''] (msgWorld ''fix bug\<newline>'') = Returns () w'
      \<and> files w' ''COMMIT_EDITMSG'' =
          Some (File ''fix bug\<newline>\<newline>Change-Id: I000102030405060708090a0b0c0d0e0f10111213\<newline>'' 0x1A4)"
proof -
  let ?w = "msgWorld ''fix bug\<newline>''"
  have h1: "files ?w ''COMMIT_EDITMSG'' = Some (File ''fix bug\<newline>'' 0x1A4)"
    by (simp add: msgWorld_def)
  have h2: "\<not> fails ?w SysReadFile ''COMMIT_EDITMSG''" by (simp add: msgWorld_def)
  have h3: "\<not> (\<exists>a b. ''fix bug\<newline>'' = a @ ''\<newline>Change-Id: '' @ b)"
    unfolding Contains_iff [symmetric] by simp
  have h4: "20 \<le> length (entropy ?w)" by (simp add: msgWorld_def)
  have h5: "\<not> fails ?w SysWriteFile ''COMMIT_EDITMSG''" by (simp add: msgWorld_def)
  have hx: "hex (take 20 (entropy ?w)) = ''000102030405060708090a0b0c0d0e0f10111213''"
    by (simp add: msgWorld_def hex_def hexByte_def hexdigits_def)
  from hookCommitMsg_appends_ChangeId [OF h1 h2 h3 h4 h5] hx show ?thesis by auto
qed

text \<open>
  Claim C2. When the message file holds \<open>"\nChange-Id: "\<close> anywhere, whatever
  comes before and after it, \<open>hookCommitMsg\<close> returns and leaves the world (the file
  with it) as it was.
\<close>

theorem hookCommitMsg_keeps_existing_ChangeId:
  assumes "files w file = Some (File data m)" and "\<not> fails w SysReadFile file"
    and "data = a @ ''\<newline>Change-Id: '' @ b"
  shows "hookCommitMsg [file] w = Returns () w"
proof -
  have "ReadFile w file = Inr data" using assms(1,2) by (simp add: ReadFile_Inr_iff)
  moreover have "Contains data ''\<newline>Change-Id: ''"
    unfolding Contains_iff using assms(3) by blast
  ultimately show ?thesis by (rule hookCommitMsg_present)
qed

text \<open>Claim C2 at a concrete input.\<close>

theorem hookCommitMsg_keeps_existing_ChangeId_witness:
  "hookCommitMsg [''COMMIT_EDITMSG''] (msgWorld ''fix bug\<newline>Change-Id: abc\<newline>more text\<newline>'')
     = Returns () (msgWorld ''fix bug\<newline>Change-Id: abc\<newline>more text\<newline>'')"
proof -
  let ?d = "''fix bug\<newline>Change-Id: abc\<newline>more text\<newline>''"
  have h1: "files (msgWorld ?d) ''COMMIT_EDITMSG'' = Some (File ?d 0x1A4)"
    by (simp add: msgWorld_def)
  have h2: "\<not> fails (msgWorld ?d) SysReadFile ''COMMIT_EDITMSG''" by (simp add: msgWorld_def)
  have h3: "?d = ''fix bug'' @ ''\<newline>Change-Id: '' @ ''abc\<newline>more text\<newline>''" by simp
  show ?thesis by (rule hookCommitMsg_keeps_existing_ChangeId [OF h1 h2 h3])
qed

text \<open>
  Claim C8. After a run of \<open>hookCommitMsg\<close> that returned, the message file holds
  \<open>"\nChange-Id: "\<close>, and a second run on the same file returns and changes nothing.
\<close>

theorem hookCommitMsg_twice_unchanged:
  assumes "hookCommitMsg args w = Returns () w'"
  shows "(\<exists>file data' m a b. args = [file] \<and> files w' file = Some (File data' m)
            \<and> data' = a @ ''\<newline>Change-Id: '' @ b)
         \<and> hookCommitMsg args w' = Returns () w'"
proof -
  from hookCommitMsg_Returns [OF assms]
  obtain fname data m where args: "args = [fname]"
    and f: "files w fname = Some (File data m)"
    and nf: "\<not> fails w SysReadFile fname"
    and c: "if Contains data ''\<newline>Change-Id: '' then w' = w
            else 20 \<le> length (entropy w) \<and> \<not> fails w SysWriteFile fname
               \<and> w' = w\<lparr> files := (files w)(fname \<mapsto> File (appended data (take 20 (entropy w))) m),
                          entropy := drop 20 (entropy w),
                          trace := trace w @ [CallWriteFile fname None] \<rparr>"
    by blast
  define data' where
    "data' = (if Contains data ''\<newline>Change-Id: '' then data else appended data (take 20 (entropy w)))"
  have f': "files w' fname = Some (File data' m)"
    using c f by (auto simp: data'_def split: if_splits)
  have nf': "\<not> fails w' SysReadFile fname"
    using c nf by (auto split: if_splits)
  have c': "Contains data' ''\<newline>Change-Id: ''"
    by (simp add: data'_def appended_Contains)
  then obtain a b where ab: "data' = a @ ''\<newline>Change-Id: '' @ b"
    unfolding Contains_iff by blast
  have "ReadFile w' fname = Inr data'" using f' nf' by (simp add: ReadFile_Inr_iff)
  then have "hookCommitMsg [fname] w' = Returns () w'"
    using c' by (rule hookCommitMsg_present)
  with args f' ab show ?thesis by blast
qed

text \<open>Claim C8 at a concrete input.\<close>

theorem hookCommitMsg_twice_unchanged_witness:
  "\<exists>w'. hookCommitMsg [''COMMIT_EDITMSG''] (msgWorld ''fix bug\<newline>'') = Returns () w'
      \<and> hookCommitMsg [''COMMIT_EDITMSG''] w' = Returns () w'"
proof -
  obtain w' where r: "hookCommitMsg [''COMMIT_EDITMSG''] (msgWorld ''fix bug\<newline>'') = Returns () w'"
    by (simp add: hookCommitMsg_def msgWorld_def ReadFile_def ReadFull_def WriteFile_def Let_def)
  from hookCommitMsg_twice_unchanged [OF r] r show ?thesis by blast
qed

text \<open>
  Claim C10. A message that begins with \<open>Change-Id: \<close> at offset 0 and holds no
  \<open>"\nChange-Id: "\<close> is not taken to carry a trailer: \<open>hookCommitMsg\<close> appends a
  second \<open>Change-Id\<close> line to it.
\<close>

theorem hookCommitMsg_misses_first_line_ChangeId:
  assumes "files w file = Some (File (''Change-Id: '' @ rest) m)"
    and "\<not> fails w SysReadFile file"
    and "\<not> (\<exists>a b. ''Change-Id: '' @ rest = a @ ''\<newline>Change-Id: '' @ b)"
    and "20 \<le> length (entropy w)" and "\<not> fails w SysWriteFile file"
  shows "\<exists>t k w'. rest = t @ replicate k CHR ''\<newline>'' \<and> (t = [] \<or> last t \<noteq> CHR ''\<newline>'')
           \<and> hookCommitMsg [file] w = Returns () w'
           \<and> files w' file =
               Some (File (''Change-Id: '' @ t @ ''\<newline>\<newline>Change-Id: I''
                            @ hex (take 20 (entropy w)) @ ''\<newline>'') m)"
proof -
  let ?data = "''Change-Id: '' @ rest"
  let ?ident = "take 20 (entropy w)"
  have nc: "\<not> Contains ?data ''\<newline>Change-Id: ''" unfolding Contains_iff by (rule assms(3))
  obtain t0 k0 where d0: "?data = t0 @ replicate k0 CHR ''\<newline>''"
      and l0: "t0 = [] \<or> last t0 \<noteq> CHR ''\<newline>''"
      and a0: "appended ?data ?ident = t0 @ ''\<newline>\<newline>Change-Id: I'' @ hex ?ident @ ''\<newline>''"
    using appended_split by blast
  obtain t k where d: "rest = t @ replicate k CHR ''\<newline>''"
      and l: "t = [] \<or> last t \<noteq> CHR ''\<newline>''"
    using appended_split [of rest] by blast
  have e: "t0 @ replicate k0 CHR ''\<newline>'' = (''Change-Id: '' @ t) @ replicate k CHR ''\<newline>''"
    using d0 [symmetric] d by simp
  have l1: "''Change-Id: '' @ t = [] \<or> last (''Change-Id: '' @ t) \<noteq> CHR ''\<newline>''"
    using l by (cases "t = []") auto
  have t0: "t0 = ''Change-Id: '' @ t"
    by (rule trimmed_unique [OF e l0 l1])
  define w' where "w' = w\<lparr> files := (files w)(file \<mapsto> File (appended ?data ?ident) m),
                          entropy := drop 20 (entropy w),
                          trace := trace w @ [CallWriteFile file None] \<rparr>"
  have run: "hookCommitMsg [file] w = Returns () w'"
    using hookCommitMsg_absent [OF assms(1,2) nc assms(4,5)] by (simp only: w'_def)
  have f1: "files w' file = Some (File (appended ?data ?ident) m)"
    unfolding w'_def by simp
  have a1: "appended ?data ?ident = ''Change-Id: '' @ t @ ''\<newline>\<newline>Change-Id: I''
                            @ hex ?ident @ ''\<newline>''"
    by (simp only: a0 t0 append_assoc)
  have "files w' file = Some (File (''Change-Id: '' @ t @ ''\<newline>\<newline>Change-Id: I''
                            @ hex ?ident @ ''\<newline>'') m)"
    using f1 by (simp only: a1)
  with d l run show ?thesis by blast
qed

text \<open>Claim C10 at a concrete input.\<close>

theorem hookCommitMsg_misses_first_line_ChangeId_witness:
  "\<exists>w'. hookCommitMsg [''COMMIT_EDITMSG''] (msgWorld ''Change-Id: I1234\<newline>'') = Returns () w'
      \<and> files w' ''COMMIT_EDITMSG'' =
          Some (File ''Change-Id: I1234\<newline>\<newline>Change-Id: I000102030405060708090a0b0c0d0e0f10111213\<newline>'' 0x1A4)"
proof -
  let ?w = "msgWorld ''Change-Id: I1234\<newline>''"
  have h1: "files ?w ''COMMIT_EDITMSG'' = Some (File (''Change-Id: '' @ ''I1234\<newline>'') 0x1A4)"
    by (simp add: msgWorld_def)
  have h2: "\<not> fails ?w SysReadFile ''COMMIT_EDITMSG''" by (simp add: msgWorld_def)
  have h3: "\<not> (\<exists>a b. ''Change-Id: '' @ ''I1234\<newline>'' = a @ ''\<newline>Change-Id: '' @ b)"
    unfolding Contains_iff [symmetric] by simp
  have h4: "20 \<le> length (entropy ?w)" by (simp add: msgWorld_def)
  have h5: "\<not> fails ?w SysWriteFile ''COMMIT_EDITMSG''" by (simp add: msgWorld_def)
  have hx: "hex (take 20 (entropy ?w)) = ''000102030405060708090a0b0c0d0e0f10111213''"
    by (simp add: msgWorld_def hex_def hexByte_def hexdigits_def)
  from hookCommitMsg_misses_first_line_ChangeId [OF h1 h2 h3 h4 h5]
  obtain t k w' where tk: "''I1234\<newline>'' = t @ replicate k CHR ''\<newline>''"
      "t = [] \<or> last t \<noteq> CHR ''\<newline>''"
    and r: "hookCommitMsg [''COMMIT_EDITMSG''] ?w = Returns () w'"
    and f: "files w' ''COMMIT_EDITMSG'' =
               Some (File (''Change-Id: '' @ t @ ''\<newline>\<newline>Change-Id: I''
                            @ hex (take 20 (entropy ?w)) @ ''\<newline>'') 0x1A4)"
    by blast
  have "t @ replicate k CHR ''\<newline>'' = ''I1234'' @ replicate 1 CHR ''\<newline>''"
    using tk(1) [symmetric] by simp
  then have "t = ''I1234''"
    by (rule trimmed_unique) (use tk(2) in auto)
  with r f hx show ?thesis by simp
qed

section \<open>The dispatcher\<close>

text \<open>
  Claim C7. \<open>hookInvoke\<close> dies with the usage message on no arguments, hands
  \<open>args[1:]\<close> to \<open>hookCommitMsg\<close> when \<open>args[0]\<close> is \<open>commit-msg\<close>, and for any
  other hook name returns at once, the world unchanged.
\<close>

theorem hookInvoke_dispatch:
  "hookInvoke [] w = Dies ''usage: git-review hook-invoke <hook-name> [args...]'' w
   \<and> hookInvoke (''commit-msg'' # rest) w = hookCommitMsg rest w
   \<and> (name \<noteq> ''commit-msg'' \<longrightarrow> hookInvoke (name # rest) w = Returns () w)"
  by (simp add: hookInvoke_def dief_def)

text \<open>Claim C7 at a concrete input.\<close>

theorem hookInvoke_dispatch_witness:
  "hookInvoke [''pre-commit'', ''x''] (msgWorld ''fix bug\<newline>'') = Returns () (msgWorld ''fix bug\<newline>'')"
proof -
  have "''pre-commit'' \<noteq> ''commit-msg''" by simp
  with hookInvoke_dispatch [of "msgWorld ''fix bug\<newline>''" "[''x'']" "''pre-commit''"] show ?thesis by blast
qed

section \<open>Paths on Unix\<close>

lemma splitPath_nonempty: "splitPath s \<noteq> []"
  by (induction s) (auto split: list.splits)

lemma splitPath_append: "splitPath (a @ CHR ''/'' # b) = splitPath a @ splitPath b"
proof (induction a)
  case Nil
  then show ?case by simp
next
  case (Cons c a)
  show ?case
  proof (cases "c = CHR ''/''")
    case True
    then show ?thesis using Cons.IH by simp
  next
    case False
    obtain e es where ees: "splitPath a = e # es"
      using splitPath_nonempty [of a] by (cases "splitPath a") auto
    then show ?thesis using False Cons.IH by simp
  qed
qed

lemma splitPath_noslash: "CHR ''/'' \<notin> set n \<Longrightarrow> splitPath n = [n]"
  by (induction n) auto


lemma joinWith_snoc:
  "joinWith sep (xs @ [n]) = (if xs = [] then n else joinWith sep xs @ sep @ n)"
  by (induction sep xs rule: joinWith.induct) auto

lemma splitPath_joinWith:
  "names \<noteq> [] \<Longrightarrow> \<forall>n \<in> set names. CHR ''/'' \<notin> set n \<Longrightarrow> splitPath (joinWith ''/'' names) = names"
proof (induction names rule: rev_induct)
  case Nil
  then show ?case by simp
next
  case (snoc n names)
  show ?case
  proof (cases "names = []")
    case True
    then show ?thesis using snoc.prems by (simp add: splitPath_noslash)
  next
    case False
    have "joinWith ''/'' (names @ [n]) = joinWith ''/'' names @ CHR ''/'' # n"
      using False by (simp add: joinWith_snoc)
    then show ?thesis
      using snoc False by (simp add: splitPath_append splitPath_noslash)
  qed
qed

lemma cleanElems_normal:
  "\<forall>e \<in> set es. normalName e \<Longrightarrow> cleanElems r d out es = out @ es"
  by (induction es arbitrary: out) (auto simp: normalName_def)



lemma cleanElems_snoc_normal:
  "normalName n \<Longrightarrow> \<exists>out'. cleanElems r d out (es @ [n]) = out' @ [n]"
proof (induction es arbitrary: d out)
  case Nil
  then show ?case by (auto simp: normalName_def)
next
  case (Cons e es)
  have "\<exists>d' out'. cleanElems r d out ((e # es) @ [n]) = cleanElems r d' out' (es @ [n])"
    by (simp; blast)
  then obtain d' out' where "cleanElems r d out ((e # es) @ [n]) = cleanElems r d' out' (es @ [n])"
    by blast
  then show ?case using Cons.IH [OF Cons.prems, of d' out'] by simp
qed


lemma cleanElems_snoc_empty:
  "cleanElems r d out (es @ [[]]) = cleanElems r d out es"
  by (induction es arbitrary: d out) auto


lemma absPath_rooted: "rooted (absPath names)"
  by (simp add: rooted_def absPath_def)

lemma splitPath_absPath:
  assumes "\<forall>n \<in> set names. normalName n"
  shows "splitPath (absPath names) = (if names = [] then [[], []] else [] # names)"
  using assms splitPath_joinWith [of names]
  by (auto simp: absPath_def normalName_def)

lemma Clean_absPath:
  assumes "\<forall>n \<in> set names. normalName n"
  shows "Clean (absPath names) = absPath names"
proof -
  have "cleanElems True 0 [] (splitPath (absPath names)) = names"
    using assms by (simp add: splitPath_absPath cleanElems_normal)
  then show ?thesis
    by (simp add: Clean_def absPath_def)
qed

lemma absPath_snoc:
  "absPath (names @ [n]) = (if names = [] then [] else absPath names) @ CHR ''/'' # n"
  by (simp add: absPath_def joinWith_snoc)

lemma Clean_absPath_slash:
  assumes "\<forall>n \<in> set names. normalName n" and "names \<noteq> []"
  shows "Clean (absPath names @ ''/'') = absPath names"
proof -
  have "splitPath (absPath names @ ''/'') = ([] # names) @ [[]]"
    using assms splitPath_append [of "absPath names" "[]"] by (simp add: splitPath_absPath)
  then have "cleanElems True 0 [] (splitPath (absPath names @ ''/'')) = names"
    using assms by (simp add: cleanElems_snoc_empty cleanElems_normal)
  then show ?thesis
    by (simp add: Clean_def absPath_def)
qed

lemma cut_after_last_slash:
  "CHR ''/'' \<notin> set n \<Longrightarrow> rev (dropWhile (\<lambda>c. c \<noteq> CHR ''/'') (rev (x @ CHR ''/'' # n))) = x @ ''/''"
proof -
  assume n: "CHR ''/'' \<notin> set n"
  have "rev (x @ CHR ''/'' # n) = rev n @ (CHR ''/'' # rev x)" by simp
  moreover have "dropWhile (\<lambda>c. c \<noteq> CHR ''/'') (rev n @ (CHR ''/'' # rev x)) = CHR ''/'' # rev x"
    using n by (simp add: dropWhile_append)
  ultimately show ?thesis by simp
qed

lemma Dir_absPath_snoc:
  assumes "\<forall>n \<in> set names. normalName n" and "normalName n"
  shows "Dir (absPath (names @ [n])) = absPath names"
proof (cases "names = []")
  case True
  have "Dir (absPath [n]) = Clean ''/''"
    using assms(2) cut_after_last_slash [of n "[]"]
    by (simp add: Dir_def absPath_def normalName_def)
  then show ?thesis using True by (simp add: Clean_def absPath_def)
next
  case False
  have "Dir (absPath (names @ [n])) = Clean (absPath names @ ''/'')"
    using assms(2) False cut_after_last_slash [of n "absPath names"]
    by (simp add: Dir_def absPath_snoc normalName_def)
  then show ?thesis using assms(1) False by (simp add: Clean_absPath_slash)
qed

lemma Dir_root: "Dir ''/'' = ''/''"
  by (simp add: Dir_def Clean_def)




lemma Clean_snoc_normal:
  assumes "normalName n"
  shows "\<exists>pre. Clean (x @ CHR ''/'' # n) = pre @ n"
proof -
  let ?p = "x @ CHR ''/'' # n"
  have sp: "splitPath ?p = splitPath x @ [n]"
    using assms by (simp add: splitPath_append splitPath_noslash normalName_def)
  have jw: "\<exists>pre. joinWith ''/'' (out' @ [n]) = pre @ n" for out'
    by (cases "out' = []") (auto simp: joinWith_snoc)
  show ?thesis
  proof (cases "hd ?p = CHR ''/''")
    case True
    obtain out' where out': "cleanElems True 0 [] (splitPath ?p) = out' @ [n]"
      unfolding sp using cleanElems_snoc_normal [OF assms] by blast
    obtain pre where pre: "joinWith ''/'' (out' @ [n]) = pre @ n" using jw by blast
    have "Clean ?p = (CHR ''/'' # pre) @ n"
      using True by (simp add: Clean_def out' pre)
    then show ?thesis by blast
  next
    case False
    obtain out' where out': "cleanElems False 0 [] (splitPath ?p) = out' @ [n]"
      unfolding sp using cleanElems_snoc_normal [OF assms] by blast
    obtain pre where pre: "joinWith ''/'' (out' @ [n]) = pre @ n" using jw by blast
    have "Clean ?p = pre @ n"
      using False by (simp add: Clean_def out' pre)
    then show ?thesis by blast
  qed
qed

lemma Clean_normal: "normalName n \<Longrightarrow> Clean n = n"
proof -
  assume n: "normalName n"
  then have "hd n \<noteq> CHR ''/''" by (cases n) (auto simp: normalName_def)
  moreover have "cleanElems False 0 [] (splitPath n) = [n]"
    using n by (simp add: splitPath_noslash cleanElems_normal normalName_def)
  ultimately show ?thesis using n by (simp add: Clean_def normalName_def)
qed

lemma Join_git_last: "last (Join [d, ''.git'']) = CHR ''t''"
proof -
  have n: "normalName ''.git''" by (simp add: normalName_def)
  show ?thesis
  proof (cases "d = []")
    case True
    then show ?thesis using Clean_normal [OF n] by (simp add: Join_def)
  next
    case False
    then have "Join [d, ''.git''] = Clean (d @ CHR ''/'' # ''.git'')"
      by (simp add: Join_def)
    moreover obtain pre where "Clean (d @ CHR ''/'' # ''.git'') = pre @ ''.git''"
      using Clean_snoc_normal [OF n] by blast
    ultimately show ?thesis by simp
  qed
qed

lemma Join_hook_last: "last (Join [r, hookPath @ ''commit-msg'']) = CHR ''g''"
proof -
  have n: "normalName ''commit-msg''" by (simp add: normalName_def)
  have hp: "hookPath @ ''commit-msg'' = ''.git/hooks'' @ CHR ''/'' # ''commit-msg''"
    by (simp add: hookPath_def)
  obtain x where "Join [r, hookPath @ ''commit-msg''] = Clean (x @ CHR ''/'' # ''commit-msg'')"
  proof (cases "r = []")
    case True
    then have "Join [r, hookPath @ ''commit-msg''] = Clean (''.git/hooks'' @ CHR ''/'' # ''commit-msg'')"
      by (simp add: Join_def hookPath_def)
    then show ?thesis using that by blast
  next
    case False
    then have "Join [r, hookPath @ ''commit-msg''] = Clean ((r @ ''/.git/hooks'') @ CHR ''/'' # ''commit-msg'')"
      by (simp add: Join_def hookPath_def)
    then show ?thesis using that by blast
  qed
  moreover obtain pre where "Clean (x @ CHR ''/'' # ''commit-msg'') = pre @ ''commit-msg''"
    using Clean_snoc_normal [OF n] by blast
  ultimately show ?thesis by simp
qed

lemma unix_marker_not_hook:
  "filepath_Join unix [d, ''.git''] \<noteq> filepath_Join unix [r, hookPath @ ''commit-msg'']"
proof
  assume "filepath_Join unix [d, ''.git''] = filepath_Join unix [r, hookPath @ ''commit-msg'']"
  then have "last (Join [d, ''.git'']) = last (Join [r, hookPath @ ''commit-msg''])"
    by (simp add: unix_def)
  then show False by (simp add: Join_git_last Join_hook_last)
qed

section \<open>\<open>repoRoot\<close>\<close>

lemma ancestor_0: "ancestor P 0 dir = dir"
  by (simp add: ancestor_def)

lemma ancestor_Suc: "ancestor P (Suc k) dir = ancestor P k (filepath_Dir P dir)"
  by (simp add: ancestor_def funpow_swap1)

lemma ancestor_Suc': "ancestor P (Suc k) dir = filepath_Dir P (ancestor P k dir)"
  by (simp add: ancestor_def)

lemma repoRootLoop_skip:
  assumes "\<forall>j<k. \<not> hasGit P w (ancestor P j dir) \<and> \<not> atRoot P cwd (ancestor P j dir)"
  shows "repoRootLoop P w (rootlen P cwd) dir = repoRootLoop P w (rootlen P cwd) (ancestor P k dir)"
  using assms
proof (induction k arbitrary: dir)
  case 0
  then show ?case by (simp add: ancestor_0)
next
  case (Suc k)
  have here: "\<not> hasGit P w dir" "\<not> atRoot P cwd dir"
    using Suc.prems [rule_format, of 0] by (simp_all add: ancestor_0)
  have "\<forall>j<k. \<not> hasGit P w (ancestor P j (filepath_Dir P dir))
             \<and> \<not> atRoot P cwd (ancestor P j (filepath_Dir P dir))"
  proof (intro allI impI)
    fix j assume "j < k"
    then have "Suc j < Suc k" by simp
    from Suc.prems [rule_format, OF this]
    show "\<not> hasGit P w (ancestor P j (filepath_Dir P dir))
             \<and> \<not> atRoot P cwd (ancestor P j (filepath_Dir P dir))"
      by (simp add: ancestor_Suc)
  qed
  from Suc.IH [OF this]
  have "repoRootLoop P w (rootlen P cwd) (filepath_Dir P dir)
          = repoRootLoop P w (rootlen P cwd) (ancestor P (Suc k) dir)"
    by (simp add: ancestor_Suc)
  moreover have "repoRootLoop P w (rootlen P cwd) dir
          = repoRootLoop P w (rootlen P cwd) (filepath_Dir P dir)"
    using here by (subst repoRootLoop.simps) (auto simp: hasGit_def atRoot_def)
  ultimately show ?case by simp
qed

lemma repoRootLoop_found:
  "hasGit P w dir \<Longrightarrow> repoRootLoop P w rl dir = Some (Returns dir w)"
  by (subst repoRootLoop.simps) (simp add: hasGit_def)


lemma repoRoot_Getwd: "wd w = Some cwd \<Longrightarrow> repoRoot P w = repoRootLoop P w (rootlen P cwd) cwd"
  by (simp add: repoRoot_def Getwd_def)


lemma ancestor_unix_absPath:
  assumes "\<forall>n \<in> set names. normalName n"
  shows "ancestor unix k (absPath names) = absPath (take (length names - k) names)"
proof (induction k)
  case 0
  then show ?case by (simp add: ancestor_0)
next
  case (Suc k)
  have d: "filepath_Dir unix = Dir" by (simp add: unix_def)
  show ?case
  proof (cases "k < length names")
    case True
    let ?i = "length names - Suc k"
    have i: "?i < length names" using True by simp
    have "take (length names - k) names = take ?i names @ [names ! ?i]"
      using True take_Suc_conv_app_nth [OF i] by (simp add: Suc_diff_Suc)
    moreover have "\<forall>n \<in> set (take ?i names). normalName n"
      using assms by (auto dest: in_set_takeD)
    moreover have "normalName (names ! ?i)" using assms i by simp
    ultimately show ?thesis
      using Suc.IH by (simp add: ancestor_Suc' d Dir_absPath_snoc)
  next
    case False
    then show ?thesis
      using Suc.IH by (simp add: ancestor_Suc' d Dir_root absPath_def)
  qed
qed

lemma rootlen_unix: "rootlen unix cwd = 1"
  by (simp add: rootlen_def unix_def)

lemma atRoot_unix: "atRoot unix cwd dir \<longleftrightarrow> dir = ''/''"
proof -
  have "length dir = Suc 0 \<and> dir ! 0 = CHR ''/'' \<longleftrightarrow> dir = ''/''"
    by (cases dir) auto
  moreover have "filepath_Separator unix = CHR ''/''" by (simp add: unix_def)
  ultimately show ?thesis by (simp add: atRoot_def rootlen_unix)
qed


lemma absPath_not_root:
  assumes "\<forall>n \<in> set names. normalName n" and "names \<noteq> []"
  shows "absPath names \<noteq> ''/''"
proof -
  obtain c cs where "names = c # cs" using assms(2) by (cases names) auto
  moreover then have "c \<noteq> []" using assms(1) by (simp add: normalName_def)
  ultimately show ?thesis by (cases cs) (auto simp: absPath_def)
qed

lemma repoRoot_nested:
  assumes names: "\<forall>n \<in> set (base @ sub). normalName n"
    and wd: "wd w = Some (absPath (base @ sub))"
    and git: "hasGit unix w (absPath base)"
    and nogit: "\<forall>m. 0 < m \<and> m \<le> length sub \<longrightarrow> \<not> hasGit unix w (absPath (base @ take m sub))"
  shows "repoRoot unix w = Some (Returns (absPath base) w)"
proof -
  let ?cwd = "absPath (base @ sub)"
  have anc: "ancestor unix j ?cwd = absPath (base @ take (length sub - j) sub)" if "j \<le> length sub" for j
    using that by (simp add: ancestor_unix_absPath [OF names])
  have before: "\<forall>j<length sub. \<not> hasGit unix w (ancestor unix j ?cwd)
                   \<and> \<not> atRoot unix ?cwd (ancestor unix j ?cwd)"
  proof (intro allI impI)
    fix j assume j: "j < length sub"
    let ?m = "length sub - j"
    have m: "0 < ?m \<and> ?m \<le> length sub" using j by simp
    have a: "ancestor unix j ?cwd = absPath (base @ take ?m sub)" using anc [of j] j by simp
    have ne: "base @ take ?m sub \<noteq> []" using m by (cases sub) auto
    have nn: "\<forall>n \<in> set (base @ take ?m sub). normalName n"
      using names by (auto dest: in_set_takeD)
    show "\<not> hasGit unix w (ancestor unix j ?cwd) \<and> \<not> atRoot unix ?cwd (ancestor unix j ?cwd)"
      using nogit [rule_format, OF m] absPath_not_root [OF nn ne] by (simp add: a atRoot_unix)
  qed
  have "repoRoot unix w = repoRootLoop unix w (rootlen unix ?cwd) (ancestor unix (length sub) ?cwd)"
    using repoRootLoop_skip [OF before] wd by (simp add: repoRoot_Getwd)
  also have "ancestor unix (length sub) ?cwd = absPath base" using anc [of "length sub"] by simp
  finally show ?thesis using git by (simp add: repoRootLoop_found)
qed

lemma repoRootLoop_world:
  assumes "repoRootLoop P w rl dir = Some r"
  shows "after r = w"
proof -
  have "after r = snd (fst (fst (((P, w), rl), dir)))"
  proof (rule repoRootLoop.raw_induct
            [where Pa = "\<lambda>x r. after r = snd (fst (fst x))" and P = P and w = w
               and rl = rl and dir = dir and y = r])
    show "repoRootLoop P w rl dir = Some r" by (rule assms)
  next
    fix f :: "platform \<Rightarrow> world \<Rightarrow> nat \<Rightarrow> string \<Rightarrow> string exec option"
    fix Q v n d and x :: "string exec"
    assume IH: "\<And>Q v n d x. f Q v n d = Some x \<Longrightarrow> after x = snd (fst (fst (((Q, v), n), d)))"
    assume step: "(if Stat v (filepath_Join Q [d, ''.git'']) = None then Some (Returns d v)
                   else if length d = n \<and> d ! (n - 1) = filepath_Separator Q
                   then Some (dief ''git root not found. Rerun from within the Git tree.'' v)
                   else f Q v n (filepath_Dir Q d)) = Some x"
    show "after x = snd (fst (fst (((Q, v), n), d)))"
    proof (cases "Stat v (filepath_Join Q [d, ''.git'']) = None")
      case True
      then show ?thesis using step by auto
    next
      case False
      show ?thesis
      proof (cases "length d = n \<and> d ! (n - 1) = filepath_Separator Q")
        case True
        then show ?thesis using step False by (auto simp: dief_def)
      next
        case False
        then have "f Q v n (filepath_Dir Q d) = Some x"
          using step \<open>Stat v (filepath_Join Q [d, ''.git'']) \<noteq> None\<close> by auto
        from IH [OF this] show ?thesis by simp
      qed
    qed
  qed
  then show ?thesis by simp
qed

lemma repoRoot_world: "repoRoot P w = Some r \<Longrightarrow> after r = w"
  by (auto simp: repoRoot_def dief_def split: sum.splits dest: repoRootLoop_world)

lemma repoRootLoop_stable:
  assumes "repoRootLoop P w rl dir = Some (Returns root w)"
    and "\<forall>d. Stat w' (filepath_Join P [d, ''.git'']) = Stat w (filepath_Join P [d, ''.git''])"
  shows "repoRootLoop P w' rl dir = Some (Returns root w')"
proof -
  let ?Q = "\<lambda>x r. \<forall>root. r = Returns root (snd (fst (fst x))) \<longrightarrow>
              (\<forall>d. Stat w' (filepath_Join (fst (fst (fst x))) [d, ''.git''])
                     = Stat (snd (fst (fst x))) (filepath_Join (fst (fst (fst x))) [d, ''.git''])) \<longrightarrow>
              repoRootLoop (fst (fst (fst x))) w' (snd (fst x)) (snd x) = Some (Returns root w')"
  have "?Q (((P, w), rl), dir) (Returns root w)"
  proof (rule repoRootLoop.raw_induct [where Pa = ?Q and P = P and w = w
               and rl = rl and dir = dir and y = "Returns root w"])
    show "repoRootLoop P w rl dir = Some (Returns root w)" by (rule assms(1))
  next
    fix f :: "platform \<Rightarrow> world \<Rightarrow> nat \<Rightarrow> string \<Rightarrow> string exec option"
    fix Q v n d and x :: "string exec"
    assume IH: "\<And>Q v n d x. f Q v n d = Some x \<Longrightarrow> ?Q (((Q, v), n), d) x"
    assume step: "(if Stat v (filepath_Join Q [d, ''.git'']) = None then Some (Returns d v)
                   else if length d = n \<and> d ! (n - 1) = filepath_Separator Q
                   then Some (dief ''git root not found. Rerun from within the Git tree.'' v)
                   else f Q v n (filepath_Dir Q d)) = Some x"
    show "?Q (((Q, v), n), d) x"
    proof (intro allI impI)
      fix r
      assume x: "x = Returns r (snd (fst (fst (((Q, v), n), d))))"
      assume same: "\<forall>e. Stat w' (filepath_Join (fst (fst (fst (((Q, v), n), d)))) [e, ''.git''])
                     = Stat (snd (fst (fst (((Q, v), n), d))))
                         (filepath_Join (fst (fst (fst (((Q, v), n), d)))) [e, ''.git''])"
      then have same': "\<And>e. Stat w' (filepath_Join Q [e, ''.git'']) = Stat v (filepath_Join Q [e, ''.git''])"
        by simp
      have "repoRootLoop Q w' n d = Some (Returns r w')"
      proof (cases "Stat v (filepath_Join Q [d, ''.git'']) = None")
        case True
        then have "r = d" using step x by simp
        then show ?thesis using True same' [of d] by (subst repoRootLoop.simps) simp
      next
        case False
        show ?thesis
        proof (cases "length d = n \<and> d ! (n - 1) = filepath_Separator Q")
          case True
          then show ?thesis using step False x by (auto simp: dief_def)
        next
          case root: False
          then have "f Q v n (filepath_Dir Q d) = Some x"
            using step False by auto
          from IH [OF this] x same'
          have "repoRootLoop Q w' n (filepath_Dir Q d) = Some (Returns r w')" by simp
          then show ?thesis using False root same' [of d]
            by (subst repoRootLoop.simps) auto
        qed
      qed
      then show "repoRootLoop (fst (fst (fst (((Q, v), n), d)))) w' (snd (fst (((Q, v), n), d)))
                   (snd (((Q, v), n), d)) = Some (Returns r w')"
        by simp
    qed
  qed
  then show ?thesis using assms(2) by simp
qed

lemma repoRoot_stable:
  assumes "repoRoot P w = Some (Returns root w)"
    and "wd w' = wd w"
    and "\<forall>d. Stat w' (filepath_Join P [d, ''.git'']) = Stat w (filepath_Join P [d, ''.git''])"
  shows "repoRoot P w' = Some (Returns root w')"
proof -
  obtain cwd where cwd: "wd w = Some cwd"
    using assms(1) by (cases "wd w") (auto simp: repoRoot_def Getwd_def dief_def)
  then have "repoRootLoop P w (rootlen P cwd) cwd = Some (Returns root w)"
    using assms(1) by (simp add: repoRoot_Getwd)
  from repoRootLoop_stable [OF this assms(3)] cwd assms(2)
  show ?thesis by (simp add: repoRoot_Getwd)
qed

subsection \<open>The root of the volume, and the walk on Windows\<close>
























lemma Stat_None_iff: "Stat w f = None \<longleftrightarrow> (\<not> fails w SysStat f \<and> files w f \<noteq> None)"
  by (auto simp: Stat_def split: option.splits)








section \<open>\<open>installHook\<close>\<close>

lemma hookScript_not_old: "hookScript h \<noteq> oldCommitMsgHook"
  by (simp add: hookScript_def oldCommitMsgHook_def)

lemma Stat_cases:
  "Stat w f = (if fails w SysStat f then Some (PathError ''stat'' f EACCES)
               else if files w f = None then Some (PathError ''stat'' f ENOENT) else None)"
  by (auto simp: Stat_def split: option.splits)

lemma removeOldHook_eq:
  "removeOldHook h f w =
     (if h = ''commit-msg'' \<and> ReadFile w f = Inr oldCommitMsgHook
      then w\<lparr> files := (if fails w SysRemove f then files w else (files w)(f := None)),
              trace := trace w
                 @ (if verbose w > 0 then [Diagnostic ''removing old commit-msg hook''] else [])
                 @ [CallRemove f (if fails w SysRemove f
                                  then Some (PathError ''remove'' f EACCES) else None)] \<rparr>
      else w)"
proof (cases "h = ''commit-msg'' \<and> ReadFile w f = Inr oldCommitMsgHook")
  case True
  then obtain m where "files w f = Some (File oldCommitMsgHook m)"
    by (auto simp: ReadFile_Inr_iff)
  then show ?thesis
    using True by (simp add: removeOldHook_def Remove_def verbosef_def Let_def)
next
  case False
  then show ?thesis
    by (auto simp: removeOldHook_def split: sum.splits)
qed

lemma writeHook_exists:
  assumes "\<not> fails w SysStat f" and "files w f \<noteq> None"
  shows "writeHook h f w =
           Returns () (w\<lparr> trace := trace w @
              (if verbose w > 0 then
                 (case ReadFile w f of
                    Inl err \<Rightarrow> [Diagnostic (''reading hook: '' @ Error err)]
                  | Inr data \<Rightarrow>
                      if data \<noteq> hookScript h
                      then [Diagnostic (''unexpected hook content in '' @ f)] else [])
               else []) \<rparr>)"
proof -
  have "Stat w f = None" using assms by (simp add: Stat_None_iff)
  then show ?thesis
    by (simp add: writeHook_def verbosef_def Let_def split: sum.splits)
qed

lemma writeHook_stat_fails:
  assumes "fails w SysStat f"
  shows "writeHook h f w = Dies (''checking hook: '' @ Error (PathError ''stat'' f EACCES)) w"
  using assms by (simp add: writeHook_def Stat_cases dief_def Let_def)

lemma writeHook_missing:
  assumes "\<not> fails w SysStat f" and "files w f = None"
  shows "writeHook h f w =
           (if fails w SysWriteFile f
            then Dies (''writing hook: '' @ Error (PathError ''open'' f EACCES))
                   (w\<lparr> trace := trace w
                        @ (if verbose w > 0 then [Diagnostic (''installing '' @ h @ '' hook'')] else [])
                        @ [CallWriteFile f (Some (PathError ''open'' f EACCES))] \<rparr>)
            else Returns ()
                   (w\<lparr> files := (files w)(f \<mapsto> File (hookScript h) (0x1C0 AND NOT (umask w))),
                        trace := trace w
                        @ (if verbose w > 0 then [Diagnostic (''installing '' @ h @ '' hook'')] else [])
                        @ [CallWriteFile f None] \<rparr>))"
  using assms
  by (simp add: writeHook_def Stat_cases dief_def Let_def WriteFile_def verbosef_def)

lemma installHook_unfold:
  "installHook P w =
     (case repoRoot P w of
        None \<Rightarrow> None
      | Some (Dies msg w') \<Rightarrow> Some (Dies msg w')
      | Some (Returns root w') \<Rightarrow>
          Some (writeHook ''commit-msg'' (filepath_Join P [root, hookPath @ ''commit-msg''])
                  (removeOldHook ''commit-msg''
                     (filepath_Join P [root, hookPath @ ''commit-msg'']) w')))"
proof -
  have u: "(case x of Dies msg w' \<Rightarrow> Some (Dies msg w') | Returns u w' \<Rightarrow> Some (Returns () w'))
             = Some x" for x :: "unit exec"
    by (cases x) auto
  show ?thesis
    by (simp add: installHook_def hookFiles_def installHookFile_def Let_def u
             split: option.splits exec.splits)
qed

lemma installHook_found:
  assumes "repoRoot P w = Some (Returns root w')"
  shows "installHook P w =
           Some (writeHook ''commit-msg'' (filepath_Join P [root, hookPath @ ''commit-msg''])
                  (removeOldHook ''commit-msg''
                     (filepath_Join P [root, hookPath @ ''commit-msg'']) w))"
proof -
  have "w' = w" using repoRoot_world [OF assms] by simp
  then show ?thesis using assms by (simp add: installHook_unfold)
qed

lemma installHook_cases:
  assumes "installHook P w = Some r"
  obtains (died) msg where "repoRoot P w = Some (Dies msg w)" and "r = Dies msg w"
  | (found) root where "repoRoot P w = Some (Returns root w)"
      and "r = writeHook ''commit-msg'' (filepath_Join P [root, hookPath @ ''commit-msg''])
                  (removeOldHook ''commit-msg''
                     (filepath_Join P [root, hookPath @ ''commit-msg'']) w)"
proof (cases "repoRoot P w")
  case None
  then show ?thesis using assms by (simp add: installHook_unfold)
next
  case (Some x)
  have aw: "after x = w" using repoRoot_world [OF Some] .
  show ?thesis
  proof (cases x)
    case (Returns root w')
    then have "repoRoot P w = Some (Returns root w)" using Some aw by simp
    then show ?thesis using found assms installHook_found [of P w root w] by simp
  next
    case (Dies msg w')
    then have "repoRoot P w = Some (Dies msg w)" using Some aw by simp
    then show ?thesis using died assms by (simp add: installHook_unfold)
  qed
qed

lemma files_removeOldHook:
  "files (removeOldHook h f w) =
     (if h = ''commit-msg'' \<and> ReadFile w f = Inr oldCommitMsgHook \<and> \<not> fails w SysRemove f
      then (files w)(f := None) else files w)"
  by (simp add: removeOldHook_eq)

lemma trace_removeOldHook:
  "trace (removeOldHook h f w) = trace w @
     (if h = ''commit-msg'' \<and> ReadFile w f = Inr oldCommitMsgHook
      then (if verbose w > 0 then [Diagnostic ''removing old commit-msg hook''] else [])
           @ [CallRemove f (if fails w SysRemove f
                            then Some (PathError ''remove'' f EACCES) else None)]
      else [])"
  by (simp add: removeOldHook_eq)

lemma removeOldHook_other:
  "fails (removeOldHook h f w) = fails w" "wd (removeOldHook h f w) = wd w"
  "umask (removeOldHook h f w) = umask w" "verbose (removeOldHook h f w) = verbose w"
  "entropy (removeOldHook h f w) = entropy w"
  by (simp_all add: removeOldHook_eq)

lemma writeHook_cases:
  obtains (stat_fails) "fails w SysStat f"
      "writeHook h f w = Dies (''checking hook: '' @ Error (PathError ''stat'' f EACCES)) w"
  | (exists) "\<not> fails w SysStat f" "files w f \<noteq> None"
      "writeHook h f w =
           Returns () (w\<lparr> trace := trace w @
              (if verbose w > 0 then
                 (case ReadFile w f of
                    Inl err \<Rightarrow> [Diagnostic (''reading hook: '' @ Error err)]
                  | Inr data \<Rightarrow>
                      if data \<noteq> hookScript h
                      then [Diagnostic (''unexpected hook content in '' @ f)] else [])
               else []) \<rparr>)"
  | (write_fails) "\<not> fails w SysStat f" "files w f = None" "fails w SysWriteFile f"
      "writeHook h f w =
         Dies (''writing hook: '' @ Error (PathError ''open'' f EACCES))
                   (w\<lparr> trace := trace w
                        @ (if verbose w > 0 then [Diagnostic (''installing '' @ h @ '' hook'')] else [])
                        @ [CallWriteFile f (Some (PathError ''open'' f EACCES))] \<rparr>)"
  | (written) "\<not> fails w SysStat f" "files w f = None" "\<not> fails w SysWriteFile f"
      "writeHook h f w =
         Returns ()
                   (w\<lparr> files := (files w)(f \<mapsto> File (hookScript h) (0x1C0 AND NOT (umask w))),
                        trace := trace w
                        @ (if verbose w > 0 then [Diagnostic (''installing '' @ h @ '' hook'')] else [])
                        @ [CallWriteFile f None] \<rparr>)"
proof (cases "fails w SysStat f")
  case True
  then show ?thesis using stat_fails writeHook_stat_fails by blast
next
  case nf: False
  show ?thesis
  proof (cases "files w f = None")
    case False
    then show ?thesis using exists nf writeHook_exists by blast
  next
    case True
    then show ?thesis
      using write_fails written nf writeHook_missing [OF nf True, of h]
      by (cases "fails w SysWriteFile f") auto
  qed
qed

lemma files_writeHook:
  "files (after (writeHook h f w)) =
     (if files w f = None \<and> \<not> fails w SysStat f \<and> \<not> fails w SysWriteFile f
      then (files w)(f \<mapsto> File (hookScript h) (0x1C0 AND NOT (umask w))) else files w)"
  by (cases rule: writeHook_cases [of w f h]) auto

lemma trace_writeHook:
  "\<exists>evs. trace (after (writeHook h f w)) = trace w @ evs \<and> (\<forall>p err. CallRemove p err \<notin> set evs)"
  by (cases rule: writeHook_cases [of w f h]) (auto split: sum.splits)

lemma since_append: "trace w' = trace w @ evs \<Longrightarrow> since w w' = evs"
  by (simp add: since_def)

lemma repoRoot_repoWorld:
  "repoRoot unix (repoWorld hook denied v) = Some (Returns ''/repo'' (repoWorld hook denied v))"
proof -
  let ?w = "repoWorld hook denied v"
  have h1: "\<forall>e \<in> set ([''repo''] @ [''sub'']). normalName e" by (simp add: normalName_def)
  have h2: "wd ?w = Some (absPath ([''repo''] @ [''sub'']))"
    by (simp add: repoWorld_def absPath_def)
  have h3: "hasGit unix ?w (absPath [''repo''])"
    by (simp add: hasGit_def Stat_def repoWorld_def hookFilePath_def absPath_def unix_def Join_def Clean_def)
  have h4: "\<forall>m. 0 < m \<and> m \<le> length [''sub''] \<longrightarrow> \<not> hasGit unix ?w (absPath ([''repo''] @ take m [''sub'']))"
  proof (intro allI impI)
    fix m :: nat assume "0 < m \<and> m \<le> length [''sub'']"
    then have "m = 1" by auto
    then show "\<not> hasGit unix ?w (absPath ([''repo''] @ take m [''sub'']))"
      by (simp add: hasGit_def Stat_def repoWorld_def hookFilePath_def absPath_def unix_def Join_def Clean_def)
  qed
  have "repoRoot unix ?w = Some (Returns (absPath [''repo'']) ?w)"
    by (rule repoRoot_nested [OF h1 h2 h3 h4])
  then show ?thesis by (simp add: absPath_def)
qed

lemma hookFilePath_Join: "filepath_Join unix [''/repo'', hookPath @ ''commit-msg''] = hookFilePath"
  by (simp add: unix_def Join_def Clean_def hookPath_def hookFilePath_def)

lemma ReadFile_trace: "ReadFile (w\<lparr> trace := t \<rparr>) f = ReadFile w f"
  by (simp add: ReadFile_def)

lemma legacy_ReadFile:
  "\<not> denied SysReadFile \<Longrightarrow>
     ReadFile (repoWorld (Some (File oldCommitMsgHook m)) denied v) hookFilePath = Inr oldCommitMsgHook"
  by (simp add: ReadFile_def repoWorld_def)

lemma Stat_frame:
  "fails w' = fails w \<Longrightarrow> files w' q = files w q \<Longrightarrow> Stat w' q = Stat w q"
  by (simp add: Stat_def)

lemma first_run:
  assumes "writeHook ''commit-msg'' f (removeOldHook ''commit-msg'' f w) = Returns () w1"
  shows "files w1 f \<noteq> None" and "\<not> fails w1 SysStat f"
    and "ReadFile w1 f = Inr oldCommitMsgHook \<longrightarrow> fails w1 SysRemove f"
    and "fails w1 = fails w" and "wd w1 = wd w"
    and "\<forall>q. q \<noteq> f \<longrightarrow> files w1 q = files w q"
proof -
  let ?m = "removeOldHook ''commit-msg'' f w"
  have fm: "fails ?m = fails w" "wd ?m = wd w" by (simp_all add: removeOldHook_other)
  have other: "\<forall>q. q \<noteq> f \<longrightarrow> files ?m q = files w q" by (simp add: files_removeOldHook)
  have goal: "files w1 f \<noteq> None \<and> \<not> fails w1 SysStat f
       \<and> (ReadFile w1 f = Inr oldCommitMsgHook \<longrightarrow> fails w1 SysRemove f)
       \<and> fails w1 = fails w \<and> wd w1 = wd w \<and> (\<forall>q. q \<noteq> f \<longrightarrow> files w1 q = files w q)"
  proof (cases rule: writeHook_cases [of ?m f "''commit-msg''"])
    case stat_fails
    then show ?thesis using assms by simp
  next
    case write_fails
    then show ?thesis using assms by simp
  next
    case exists
    then have w1: "w1 = ?m\<lparr> trace := trace ?m @
              (if verbose ?m > 0 then
                 (case ReadFile ?m f of
                    Inl err \<Rightarrow> [Diagnostic (''reading hook: '' @ Error err)]
                  | Inr data \<Rightarrow>
                      if data \<noteq> hookScript ''commit-msg''
                      then [Diagnostic (''unexpected hook content in '' @ f)] else [])
               else []) \<rparr>"
      using assms by simp
    have fl: "files w1 = files ?m" "fails w1 = fails w" "wd w1 = wd w"
      by (simp_all add: w1 removeOldHook_other)
    have ex: "files w1 f \<noteq> None" using exists(2) fl by simp
    have st: "\<not> fails w1 SysStat f" using exists(1) fm fl by simp
    have rm: "ReadFile w1 f = Inr oldCommitMsgHook \<longrightarrow> fails w1 SysRemove f"
    proof
      assume r: "ReadFile w1 f = Inr oldCommitMsgHook"
      show "fails w1 SysRemove f"
      proof (rule ccontr)
        assume nf: "\<not> fails w1 SysRemove f"
        then have nfw: "\<not> fails w SysRemove f" using fl by simp
        show False
        proof (cases "ReadFile w f = Inr oldCommitMsgHook")
          case True
          then have "files ?m f = None" using nfw by (simp add: files_removeOldHook)
          then show False using exists(2) by simp
        next
          case False
          then have "?m = w" by (simp add: removeOldHook_eq)
          then have "ReadFile w1 f = ReadFile w f"
            using fl by (simp add: ReadFile_def)
          then show False using r False by simp
        qed
      qed
    qed
    show ?thesis using ex st rm fl other by simp
  next
    case written
    then have w1: "w1 = ?m\<lparr> files := (files ?m)(f \<mapsto> File (hookScript ''commit-msg'') (0x1C0 AND NOT (umask ?m))),
                        trace := trace ?m
                        @ (if verbose ?m > 0 then [Diagnostic (''installing '' @ ''commit-msg'' @ '' hook'')] else [])
                        @ [CallWriteFile f None] \<rparr>"
      using assms by simp
    have fl: "fails w1 = fails w" "wd w1 = wd w" by (simp_all add: w1 removeOldHook_other)
    have ff: "files w1 f = Some (File (hookScript ''commit-msg'') (0x1C0 AND NOT (umask ?m)))"
      by (simp add: w1)
    have oth: "\<forall>q. q \<noteq> f \<longrightarrow> files w1 q = files w q" using other by (simp add: w1)
    have st: "\<not> fails w1 SysStat f" using written(1) fm fl by simp
    have "ReadFile w1 f \<noteq> Inr oldCommitMsgHook"
      using ff hookScript_not_old [of "''commit-msg''"] by (auto simp: ReadFile_Inr_iff)
    then show ?thesis using ff st fl oth by simp
  qed
  then show "files w1 f \<noteq> None" and "\<not> fails w1 SysStat f"
    and "ReadFile w1 f = Inr oldCommitMsgHook \<longrightarrow> fails w1 SysRemove f"
    and "fails w1 = fails w" and "wd w1 = wd w"
    and "\<forall>q. q \<noteq> f \<longrightarrow> files w1 q = files w q"
    by auto
qed

lemma second_run:
  assumes "files w1 f \<noteq> None" and "\<not> fails w1 SysStat f"
    and "ReadFile w1 f = Inr oldCommitMsgHook \<longrightarrow> fails w1 SysRemove f"
  shows "\<exists>evs. writeHook h f (removeOldHook h f w1) = Returns () (w1\<lparr> trace := trace w1 @ evs \<rparr>)
           \<and> (\<forall>e \<in> set evs. (\<forall>p err. e \<noteq> CallWriteFile p err) \<and> (\<forall>p. e \<noteq> CallRemove p None))"
proof -
  let ?m = "removeOldHook h f w1"
  let ?e1 = "(if h = ''commit-msg'' \<and> ReadFile w1 f = Inr oldCommitMsgHook
      then (if verbose w1 > 0 then [Diagnostic ''removing old commit-msg hook''] else [])
           @ [CallRemove f (Some (PathError ''remove'' f EACCES))]
      else [])"
  let ?e2 = "(if verbose ?m > 0 then
                 (case ReadFile ?m f of
                    Inl err \<Rightarrow> [Diagnostic (''reading hook: '' @ Error err)]
                  | Inr data \<Rightarrow>
                      if data \<noteq> hookScript h
                      then [Diagnostic (''unexpected hook content in '' @ f)] else [])
               else [])"
  have m: "?m = w1\<lparr> trace := trace w1 @ ?e1 \<rparr>"
    using assms(3) by (simp add: removeOldHook_eq)
  have m1: "\<not> fails ?m SysStat f" "files ?m f \<noteq> None"
    using assms(1,2) by (simp_all add: m)
  have "writeHook h f ?m = Returns () (?m\<lparr> trace := trace ?m @ ?e2 \<rparr>)"
    by (rule writeHook_exists [OF m1])
  also have "?m\<lparr> trace := trace ?m @ ?e2 \<rparr> = w1\<lparr> trace := trace w1 @ (?e1 @ ?e2) \<rparr>"
    by (subst (1 2) m) simp
  finally have run: "writeHook h f ?m = Returns () (w1\<lparr> trace := trace w1 @ (?e1 @ ?e2) \<rparr>)" .
  have "\<forall>e \<in> set (?e1 @ ?e2). (\<forall>p err. e \<noteq> CallWriteFile p err) \<and> (\<forall>p. e \<noteq> CallRemove p None)"
    by (auto split: sum.splits if_splits)
  with run show ?thesis by blast
qed

text \<open>
  Claim C5. \<open>installHook\<close> never modifies or deletes a file that was there before
  and is not byte for byte the old script: whatever the outcome of the call, such a
  file has the same bytes and mode afterwards (this holds for every path, the hook
  path among them). When such a file lies at the hook path and \<open>os.Stat\<close> succeeds
  on it, \<open>installHook\<close> returns without error; all it does is print, when verbose,
  that the file could not be read or that its content is unexpected.
\<close>

theorem installHook_keeps_existing_hook:
  "(installHook P w = Some r \<and> files w p = Some node \<and> (\<forall>m. node \<noteq> File oldCommitMsgHook m)
      \<longrightarrow> files (after r) p = Some node)
   \<and> (repoRoot P w = Some (Returns root w)
        \<and> p = filepath_Join P [root, hookPath @ ''commit-msg'']
        \<and> files w p = Some node \<and> (\<forall>m. node \<noteq> File oldCommitMsgHook m)
        \<and> \<not> fails w SysStat p
      \<longrightarrow> installHook P w =
            Some (Returns () (w\<lparr> trace := trace w @
              (if verbose w > 0 then
                 (case ReadFile w p of
                    Inl err \<Rightarrow> [Diagnostic (''reading hook: '' @ Error err)]
                  | Inr data \<Rightarrow>
                      if data \<noteq> hookScript ''commit-msg''
                      then [Diagnostic (''unexpected hook content in '' @ p)] else [])
               else []) \<rparr>)))"
proof (intro conjI impI)
  assume a: "installHook P w = Some r \<and> files w p = Some node \<and> (\<forall>m. node \<noteq> File oldCommitMsgHook m)"
  then have run: "installHook P w = Some r" and p: "files w p = Some node"
    and node: "\<forall>m. node \<noteq> File oldCommitMsgHook m" by auto
  from run show "files (after r) p = Some node"
  proof (cases rule: installHook_cases)
    case (died msg)
    then show ?thesis using p by simp
  next
    case (found root)
    let ?f = "filepath_Join P [root, hookPath @ ''commit-msg'']"
    let ?w1 = "removeOldHook ''commit-msg'' ?f w"
    have keep1: "files ?w1 p = Some node"
    proof (cases "p = ?f")
      case True
      have "ReadFile w ?f \<noteq> Inr oldCommitMsgHook"
        using p node True by (auto simp: ReadFile_Inr_iff)
      then show ?thesis using p by (simp add: files_removeOldHook)
    next
      case False
      then show ?thesis using p by (simp add: files_removeOldHook)
    qed
    have "files (after (writeHook ''commit-msg'' ?f ?w1)) p = Some node"
      using keep1 by (auto simp: files_writeHook)
    then show ?thesis using found by simp
  qed
next
  assume a: "repoRoot P w = Some (Returns root w)
        \<and> p = filepath_Join P [root, hookPath @ ''commit-msg'']
        \<and> files w p = Some node \<and> (\<forall>m. node \<noteq> File oldCommitMsgHook m)
        \<and> \<not> fails w SysStat p"
  then have rr: "repoRoot P w = Some (Returns root w)"
    and pf: "p = filepath_Join P [root, hookPath @ ''commit-msg'']"
    and p: "files w p = Some node" and node: "\<forall>m. node \<noteq> File oldCommitMsgHook m"
    and st: "\<not> fails w SysStat p" by auto
  have "ReadFile w p \<noteq> Inr oldCommitMsgHook"
    using p node by (auto simp: ReadFile_Inr_iff)
  then have same: "removeOldHook ''commit-msg'' p w = w" by (simp add: removeOldHook_eq)
  have ex: "files w p \<noteq> None" using p by simp
  show "installHook P w =
            Some (Returns () (w\<lparr> trace := trace w @
              (if verbose w > 0 then
                 (case ReadFile w p of
                    Inl err \<Rightarrow> [Diagnostic (''reading hook: '' @ Error err)]
                  | Inr data \<Rightarrow>
                      if data \<noteq> hookScript ''commit-msg''
                      then [Diagnostic (''unexpected hook content in '' @ p)] else [])
               else []) \<rparr>))"
    using installHook_found [OF rr] writeHook_exists [OF st ex, of "''commit-msg''"]
    by (simp add: pf [symmetric] same)
qed

text \<open>Claim C5 at a concrete input: a hook script of the user's own stays, and is only noted.\<close>

theorem installHook_keeps_existing_hook_witness:
  "installHook unix (repoWorld (Some (File customHook 0x1ED)) nothingDenied 1)
     = Some (Returns () ((repoWorld (Some (File customHook 0x1ED)) nothingDenied 1)
               \<lparr> trace := [Diagnostic ''unexpected hook content in /repo/.git/hooks/commit-msg''] \<rparr>))"
proof -
  let ?w = "repoWorld (Some (File customHook 0x1ED)) nothingDenied 1"
  have h1: "repoRoot unix ?w = Some (Returns ''/repo'' ?w)" by (rule repoRoot_repoWorld)
  have h2: "hookFilePath = filepath_Join unix [''/repo'', hookPath @ ''commit-msg'']"
    by (simp add: hookFilePath_Join)
  have h3: "files ?w hookFilePath = Some (File customHook 0x1ED)" by (simp add: repoWorld_def)
  have h4: "\<forall>m. File customHook 0x1ED \<noteq> File oldCommitMsgHook m"
    by (simp add: customHook_def oldCommitMsgHook_def)
  have h5: "\<not> fails ?w SysStat hookFilePath" by (simp add: repoWorld_def nothingDenied_def)
  have r: "ReadFile ?w hookFilePath = Inr customHook"
    by (simp add: ReadFile_def repoWorld_def nothingDenied_def)
  have "installHook unix ?w =
            Some (Returns () (?w\<lparr> trace := trace ?w @
              (if verbose ?w > 0 then
                 (case ReadFile ?w hookFilePath of
                    Inl err \<Rightarrow> [Diagnostic (''reading hook: '' @ Error err)]
                  | Inr data \<Rightarrow>
                      if data \<noteq> hookScript ''commit-msg''
                      then [Diagnostic (''unexpected hook content in '' @ hookFilePath)] else [])
               else []) \<rparr>))"
    using installHook_keeps_existing_hook [of unix ?w _ hookFilePath "File customHook 0x1ED" "''/repo''"] h1 h2 h3 h4 h5
    by blast
  moreover have "customHook \<noteq> hookScript ''commit-msg''"
    by (simp add: customHook_def hookScript_def)
  moreover have "verbose ?w = 1" "trace ?w = []" by (simp_all add: repoWorld_def)
  ultimately show ?thesis by (simp add: r [unfolded hookFilePath_def] hookFilePath_def)
qed

text \<open>
  Claim C4. The removal of the old hook calls \<open>os.Remove\<close> on the hook path if and
  only if the hook is named \<open>commit-msg\<close> and the file there can be read and holds
  exactly the bytes of the old script; the file is gone afterwards exactly when, in
  addition, that call does not fail. No other path is removed, no other hook name
  leads to a removal, and every removal \<open>installHook\<close> makes is of the commit-msg
  hook path holding exactly the old script.
\<close>

theorem removeOldHook_exact:
  "((\<exists>err. CallRemove filename err \<in> set (since w (removeOldHook hookFile filename w)))
      \<longleftrightarrow> (hookFile = ''commit-msg'' \<and> \<not> fails w SysReadFile filename
           \<and> (\<exists>m. files w filename = Some (File oldCommitMsgHook m))))
   \<and> files (removeOldHook hookFile filename w) =
       (if hookFile = ''commit-msg'' \<and> \<not> fails w SysReadFile filename
           \<and> (\<exists>m. files w filename = Some (File oldCommitMsgHook m))
           \<and> \<not> fails w SysRemove filename
        then (files w)(filename := None) else files w)
   \<and> (\<forall>p err. CallRemove p err \<in> set (since w (removeOldHook hookFile filename w))
         \<longrightarrow> p = filename)
   \<and> (installHookFile P hookFile w = Some r \<and> hookFile \<noteq> ''commit-msg''
         \<longrightarrow> (\<forall>p err. CallRemove p err \<notin> set (since w (after r))))
   \<and> (installHook P w = Some r \<and> CallRemove p err \<in> set (since w (after r))
         \<longrightarrow> (\<exists>root m. repoRoot P w = Some (Returns root w)
                \<and> p = filepath_Join P [root, hookPath @ ''commit-msg'']
                \<and> files w p = Some (File oldCommitMsgHook m)))"
proof -
  let ?legacy = "hookFile = ''commit-msg'' \<and> \<not> fails w SysReadFile filename
           \<and> (\<exists>m. files w filename = Some (File oldCommitMsgHook m))"
  have leg: "(hookFile = ''commit-msg'' \<and> ReadFile w filename = Inr oldCommitMsgHook) \<longleftrightarrow> ?legacy"
    by (simp add: ReadFile_Inr_iff)
  have s: "since w (removeOldHook hookFile filename w) =
     (if ?legacy
      then (if verbose w > 0 then [Diagnostic ''removing old commit-msg hook''] else [])
           @ [CallRemove filename (if fails w SysRemove filename
                            then Some (PathError ''remove'' filename EACCES) else None)]
      else [])"
    by (rule since_append) (simp only: trace_removeOldHook leg)
  have c1: "(\<exists>err. CallRemove filename err \<in> set (since w (removeOldHook hookFile filename w)))
      \<longleftrightarrow> ?legacy"
    unfolding s by auto
  have c2: "files (removeOldHook hookFile filename w) =
       (if hookFile = ''commit-msg'' \<and> \<not> fails w SysReadFile filename
           \<and> (\<exists>m. files w filename = Some (File oldCommitMsgHook m))
           \<and> \<not> fails w SysRemove filename
        then (files w)(filename := None) else files w)"
  proof (cases ?legacy)
    case True
    then have "hookFile = ''commit-msg'' \<and> ReadFile w filename = Inr oldCommitMsgHook"
      using leg by blast
    then show ?thesis using True by (simp add: files_removeOldHook)
  next
    case False
    then have "\<not> (hookFile = ''commit-msg'' \<and> ReadFile w filename = Inr oldCommitMsgHook)"
      using leg by blast
    then show ?thesis using False by (auto simp: files_removeOldHook)
  qed
  have c3: "\<forall>p err. CallRemove p err \<in> set (since w (removeOldHook hookFile filename w))
         \<longrightarrow> p = filename"
    unfolding s by auto
  have c4: "installHookFile P hookFile w = Some r \<and> hookFile \<noteq> ''commit-msg''
         \<longrightarrow> (\<forall>p err. CallRemove p err \<notin> set (since w (after r)))"
  proof
    assume a: "installHookFile P hookFile w = Some r \<and> hookFile \<noteq> ''commit-msg''"
    then have run: "installHookFile P hookFile w = Some r" and h: "hookFile \<noteq> ''commit-msg''"
      by auto
    obtain x where x: "repoRoot P w = Some x"
      using run by (cases "repoRoot P w") (auto simp: installHookFile_def)
    have aw: "after x = w" by (rule repoRoot_world [OF x])
    show "\<forall>p err. CallRemove p err \<notin> set (since w (after r))"
    proof (cases x)
      case (Dies msg w')
      then have "r = Dies msg w" using run x aw by (simp add: installHookFile_def)
      then show ?thesis by (simp add: since_def)
    next
      case (Returns root w')
      let ?f = "filepath_Join P [root, hookPath @ hookFile]"
      have "r = writeHook hookFile ?f w"
        using run x aw Returns h by (simp add: installHookFile_def Let_def removeOldHook_eq)
      moreover obtain evs where "trace (after (writeHook hookFile ?f w)) = trace w @ evs"
          and "\<forall>p err. CallRemove p err \<notin> set evs"
        using trace_writeHook by blast
      ultimately show ?thesis by (simp add: since_append)
    qed
  qed
  have c5: "installHook P w = Some r \<and> CallRemove p err \<in> set (since w (after r))
         \<longrightarrow> (\<exists>root m. repoRoot P w = Some (Returns root w)
                \<and> p = filepath_Join P [root, hookPath @ ''commit-msg'']
                \<and> files w p = Some (File oldCommitMsgHook m))"
  proof
    assume a: "installHook P w = Some r \<and> CallRemove p err \<in> set (since w (after r))"
    then have run: "installHook P w = Some r"
      and ev: "CallRemove p err \<in> set (since w (after r))" by auto
    from run show "\<exists>root m. repoRoot P w = Some (Returns root w)
                \<and> p = filepath_Join P [root, hookPath @ ''commit-msg'']
                \<and> files w p = Some (File oldCommitMsgHook m)"
    proof (cases rule: installHook_cases)
      case (died msg)
      then show ?thesis using ev by (simp add: since_def)
    next
      case (found root)
      let ?f = "filepath_Join P [root, hookPath @ ''commit-msg'']"
      let ?w1 = "removeOldHook ''commit-msg'' ?f w"
      obtain evs where evs: "trace (after (writeHook ''commit-msg'' ?f ?w1)) = trace ?w1 @ evs"
          and none: "\<forall>p err. CallRemove p err \<notin> set evs"
        using trace_writeHook by blast
      obtain evs1 where evs1: "trace ?w1 = trace w @ evs1"
        and in1: "CallRemove p err \<in> set evs1 \<Longrightarrow>
                    p = ?f \<and> ReadFile w ?f = Inr oldCommitMsgHook"
        by (simp add: trace_removeOldHook split: if_splits)
      have "since w (after r) = evs1 @ evs"
        using found evs evs1 by (simp add: since_def)
      then have "CallRemove p err \<in> set evs1" using ev none by auto
      then have "p = ?f" and "ReadFile w ?f = Inr oldCommitMsgHook" using in1 by auto
      then show ?thesis using found(1) by (auto simp: ReadFile_Inr_iff)
    qed
  qed
  show ?thesis by (intro conjI) (rule c1, rule c2, rule c3, rule c4, rule c5)
qed

text \<open>Claim C4 at a concrete input: the old script is removed, the old script with one more space is not, and neither is the old script under another hook name.\<close>

theorem removeOldHook_exact_witness:
  "files (removeOldHook ''commit-msg'' hookFilePath
            (repoWorld (Some (File oldCommitMsgHook 0x1ED)) nothingDenied 0)) hookFilePath = None
   \<and> files (removeOldHook ''commit-msg'' hookFilePath
            (repoWorld (Some (File (oldCommitMsgHook @ '' '') 0x1ED)) nothingDenied 0)) hookFilePath
       = Some (File (oldCommitMsgHook @ '' '') 0x1ED)
   \<and> files (removeOldHook ''pre-commit'' hookFilePath
            (repoWorld (Some (File oldCommitMsgHook 0x1ED)) nothingDenied 0)) hookFilePath
       = Some (File oldCommitMsgHook 0x1ED)"
proof (intro conjI)
  let ?w = "repoWorld (Some (File oldCommitMsgHook 0x1ED)) nothingDenied 0"
  let ?v = "repoWorld (Some (File (oldCommitMsgHook @ '' '') 0x1ED)) nothingDenied 0"
  have w: "files ?w hookFilePath = Some (File oldCommitMsgHook 0x1ED)"
      "\<not> fails ?w SysReadFile hookFilePath" "\<not> fails ?w SysRemove hookFilePath"
    by (simp_all add: repoWorld_def nothingDenied_def)
  have v: "files ?v hookFilePath = Some (File (oldCommitMsgHook @ '' '') 0x1ED)"
    by (simp add: repoWorld_def)
  have ne: "oldCommitMsgHook @ '' '' \<noteq> oldCommitMsgHook" by simp
  have pc: "''pre-commit'' \<noteq> ''commit-msg''" by simp
  show "files (removeOldHook ''commit-msg'' hookFilePath ?w) hookFilePath = None"
    using removeOldHook_exact [of hookFilePath ?w "''commit-msg''"] w by simp
  show "files (removeOldHook ''commit-msg'' hookFilePath ?v) hookFilePath
          = Some (File (oldCommitMsgHook @ '' '') 0x1ED)"
    using removeOldHook_exact [of hookFilePath ?v "''commit-msg''"] v ne by simp
  show "files (removeOldHook ''pre-commit'' hookFilePath ?w) hookFilePath
          = Some (File oldCommitMsgHook 0x1ED)"
    using removeOldHook_exact [of hookFilePath ?w "''pre-commit''"] w pc by simp
qed

text \<open>
  Claim C9, the claim as stated fails: with the old script at the hook path, a
  removal that fails and verbosity on, the whole run prints "removing old commit-msg
  hook" and "unexpected hook content in ...", and the removal step prints the same
  single line whether the removal fails or succeeds. No diagnostic reports the
  failure.
\<close>

theorem remove_failure_not_reported_counterexample:
  "installHook unix (repoWorld (Some (File oldCommitMsgHook 0x1ED)) removeDenied 1)
     = Some (Returns () ((repoWorld (Some (File oldCommitMsgHook 0x1ED)) removeDenied 1)
          \<lparr> trace := [Diagnostic ''removing old commit-msg hook'',
                       CallRemove hookFilePath (Some (PathError ''remove'' hookFilePath EACCES)),
                       Diagnostic ''unexpected hook content in /repo/.git/hooks/commit-msg''] \<rparr>))
   \<and> diagnostics (since (repoWorld (Some (File oldCommitMsgHook 0x1ED)) removeDenied 1)
        (removeOldHook ''commit-msg'' hookFilePath
           (repoWorld (Some (File oldCommitMsgHook 0x1ED)) removeDenied 1)))
       = [''removing old commit-msg hook'']
   \<and> diagnostics (since (repoWorld (Some (File oldCommitMsgHook 0x1ED)) nothingDenied 1)
        (removeOldHook ''commit-msg'' hookFilePath
           (repoWorld (Some (File oldCommitMsgHook 0x1ED)) nothingDenied 1)))
       = [''removing old commit-msg hook'']"
proof (intro conjI)
  let ?w = "repoWorld (Some (File oldCommitMsgHook 0x1ED)) removeDenied 1"
  let ?u = "repoWorld (Some (File oldCommitMsgHook 0x1ED)) nothingDenied 1"
  have rw: "ReadFile ?w hookFilePath = Inr oldCommitMsgHook"
    by (rule legacy_ReadFile) (simp add: removeDenied_def)
  have ru: "ReadFile ?u hookFilePath = Inr oldCommitMsgHook"
    by (rule legacy_ReadFile) (simp add: nothingDenied_def)
  have fw: "fails ?w SysRemove hookFilePath" "\<not> fails ?w SysStat hookFilePath"
      "verbose ?w = 1" "trace ?w = []" "files ?w hookFilePath \<noteq> None"
    by (simp_all add: repoWorld_def removeDenied_def)
  have fu: "\<not> fails ?u SysRemove hookFilePath" "verbose ?u = 1" "trace ?u = []"
    by (simp_all add: repoWorld_def nothingDenied_def)
  let ?m = "removeOldHook ''commit-msg'' hookFilePath ?w"
  have m: "?m = ?w\<lparr> trace := [Diagnostic ''removing old commit-msg hook'',
                       CallRemove hookFilePath (Some (PathError ''remove'' hookFilePath EACCES))] \<rparr>"
    using rw fw by (simp add: removeOldHook_eq)
  have mu: "trace (removeOldHook ''commit-msg'' hookFilePath ?u)
              = [Diagnostic ''removing old commit-msg hook'', CallRemove hookFilePath None]"
    using ru fu by (simp add: removeOldHook_eq)
  show "diagnostics (since ?w ?m) = [''removing old commit-msg hook'']"
    using fw by (simp add: m since_def)
  show "diagnostics (since ?u (removeOldHook ''commit-msg'' hookFilePath ?u))
          = [''removing old commit-msg hook'']"
    using fu by (simp add: mu since_def)
  have m1: "\<not> fails ?m SysStat hookFilePath" "files ?m hookFilePath \<noteq> None"
    using fw by (simp_all add: m)
  have rm: "ReadFile ?m hookFilePath = Inr oldCommitMsgHook"
    using rw by (simp add: m ReadFile_trace)
  have "installHook unix ?w = Some (writeHook ''commit-msg'' hookFilePath ?m)"
    using installHook_found [OF repoRoot_repoWorld] by (simp add: hookFilePath_Join)
  also have "writeHook ''commit-msg'' hookFilePath ?m =
      Returns () (?m\<lparr> trace := trace ?m @
         [Diagnostic (''unexpected hook content in '' @ hookFilePath)] \<rparr>)"
    using writeHook_exists [OF m1, of "''commit-msg''"] hookScript_not_old [of "''commit-msg''"] fw
    by (simp add: m ReadFile_trace rw)
  finally show "installHook unix ?w
     = Some (Returns () (?w
          \<lparr> trace := [Diagnostic ''removing old commit-msg hook'',
                       CallRemove hookFilePath (Some (PathError ''remove'' hookFilePath EACCES)),
                       Diagnostic ''unexpected hook content in /repo/.git/hooks/commit-msg''] \<rparr>))"
    by (simp add: m [unfolded hookFilePath_def] hookFilePath_def)
qed

text \<open>
  Claim C9, amended. When the old script lies at the hook path and its removal
  fails, the error of \<open>os.Remove\<close> is dropped: the removal step prints only
  "removing old commit-msg hook" (when verbose), as it does when the removal
  succeeds. The install goes on: when \<open>os.Stat\<close> succeeds on the hook path, the
  file is found in place, nothing is written, and \<open>installHook\<close> returns without
  error, printing "unexpected hook content in ..." when verbose.
\<close>

theorem installHook_remove_failure_dropped:
  "repoRoot P w = Some (Returns root w)
     \<and> p = filepath_Join P [root, hookPath @ ''commit-msg'']
     \<and> files w p = Some (File oldCommitMsgHook m)
     \<and> \<not> fails w SysReadFile p \<and> fails w SysRemove p \<and> \<not> fails w SysStat p
   \<longrightarrow>
     since w (removeOldHook ''commit-msg'' p w) =
        (if verbose w > 0 then [Diagnostic ''removing old commit-msg hook''] else [])
        @ [CallRemove p (Some (PathError ''remove'' p EACCES))]
   \<and> installHook P w =
        Some (Returns () (w\<lparr> trace := trace w
           @ (if verbose w > 0 then [Diagnostic ''removing old commit-msg hook''] else [])
           @ [CallRemove p (Some (PathError ''remove'' p EACCES))]
           @ (if verbose w > 0 then [Diagnostic (''unexpected hook content in '' @ p)] else []) \<rparr>))"
proof
  assume a: "repoRoot P w = Some (Returns root w)
     \<and> p = filepath_Join P [root, hookPath @ ''commit-msg'']
     \<and> files w p = Some (File oldCommitMsgHook m)
     \<and> \<not> fails w SysReadFile p \<and> fails w SysRemove p \<and> \<not> fails w SysStat p"
  then have rr: "repoRoot P w = Some (Returns root w)"
    and pf: "p = filepath_Join P [root, hookPath @ ''commit-msg'']"
    and f: "files w p = Some (File oldCommitMsgHook m)"
    and nr: "\<not> fails w SysReadFile p" and rm: "fails w SysRemove p"
    and st: "\<not> fails w SysStat p" by auto
  have r: "ReadFile w p = Inr oldCommitMsgHook" using f nr by (simp add: ReadFile_Inr_iff)
  let ?evs = "(if verbose w > 0 then [Diagnostic ''removing old commit-msg hook''] else [])
        @ [CallRemove p (Some (PathError ''remove'' p EACCES))]"
  let ?m = "removeOldHook ''commit-msg'' p w"
  have m: "?m = w\<lparr> trace := trace w @ ?evs \<rparr>"
    using r rm by (simp add: removeOldHook_eq)
  have s: "since w ?m = ?evs" by (simp add: m since_def)
  have m1: "\<not> fails ?m SysStat p" "files ?m p \<noteq> None" using st f by (simp_all add: m)
  have rm': "ReadFile ?m p = Inr oldCommitMsgHook" using r by (simp add: m ReadFile_trace)
  have "installHook P w = Some (writeHook ''commit-msg'' p ?m)"
    using installHook_found [OF rr] by (simp add: pf)
  also have "writeHook ''commit-msg'' p ?m =
      Returns () (?m\<lparr> trace := trace ?m @
         (if verbose w > 0 then [Diagnostic (''unexpected hook content in '' @ p)] else []) \<rparr>)"
    using writeHook_exists [OF m1, of "''commit-msg''"] hookScript_not_old [of "''commit-msg''"]
    by (simp add: m ReadFile_trace r)
  finally have "installHook P w =
        Some (Returns () (w\<lparr> trace := trace w @ ?evs
           @ (if verbose w > 0 then [Diagnostic (''unexpected hook content in '' @ p)] else []) \<rparr>))"
    by (simp add: m)
  with s show "since w ?m = ?evs \<and> installHook P w =
        Some (Returns () (w\<lparr> trace := trace w
           @ (if verbose w > 0 then [Diagnostic ''removing old commit-msg hook''] else [])
           @ [CallRemove p (Some (PathError ''remove'' p EACCES))]
           @ (if verbose w > 0 then [Diagnostic (''unexpected hook content in '' @ p)] else []) \<rparr>))"
    by simp
qed

text \<open>Claim C9, amended, at a concrete input.\<close>

theorem installHook_remove_failure_dropped_witness:
  "installHook unix (repoWorld (Some (File oldCommitMsgHook 0x1ED)) removeDenied 0)
     = Some (Returns () ((repoWorld (Some (File oldCommitMsgHook 0x1ED)) removeDenied 0)
          \<lparr> trace := [CallRemove hookFilePath (Some (PathError ''remove'' hookFilePath EACCES))] \<rparr>))"
proof -
  let ?w = "repoWorld (Some (File oldCommitMsgHook 0x1ED)) removeDenied 0"
  have h1: "repoRoot unix ?w = Some (Returns ''/repo'' ?w)" by (rule repoRoot_repoWorld)
  have h2: "hookFilePath = filepath_Join unix [''/repo'', hookPath @ ''commit-msg'']"
    by (simp add: hookFilePath_Join)
  have h3: "files ?w hookFilePath = Some (File oldCommitMsgHook 0x1ED)"
    by (simp add: repoWorld_def)
  have h4: "\<not> fails ?w SysReadFile hookFilePath" "fails ?w SysRemove hookFilePath"
      "\<not> fails ?w SysStat hookFilePath"
    by (simp_all add: repoWorld_def removeDenied_def)
  have v: "verbose ?w = 0" "trace ?w = []" by (simp_all add: repoWorld_def)
  from installHook_remove_failure_dropped [of unix ?w "''/repo''" hookFilePath "0x1ED"] h1 h2 h3 h4
  have "installHook unix ?w =
        Some (Returns () (?w\<lparr> trace := trace ?w
           @ (if verbose ?w > 0 then [Diagnostic ''removing old commit-msg hook''] else [])
           @ [CallRemove hookFilePath (Some (PathError ''remove'' hookFilePath EACCES))]
           @ (if verbose ?w > 0 then [Diagnostic (''unexpected hook content in '' @ hookFilePath)] else []) \<rparr>))"
    by blast
  then show ?thesis by (simp add: v)
qed

text \<open>
  Claim C3. After a call of \<open>installHook\<close> that returned, a second call returns
  too and leaves the world as the first call left it, but for the events it adds to
  the trace: among them there is no call of \<open>ioutil.WriteFile\<close> and no successful
  \<open>os.Remove\<close>. (The platform's \<open>Join\<close> must not give the hook path the name of a
  \<open>.git\<close> marker; the Unix one does not.)
\<close>

theorem installHook_twice:
  assumes "installHook P w = Some (Returns () w1)"
    and "\<forall>d r. filepath_Join P [d, ''.git''] \<noteq> filepath_Join P [r, hookPath @ ''commit-msg'']"
  shows "\<exists>evs. installHook P w1 = Some (Returns () (w1\<lparr> trace := trace w1 @ evs \<rparr>))
           \<and> (\<forall>e \<in> set evs. (\<forall>p err. e \<noteq> CallWriteFile p err) \<and> (\<forall>p. e \<noteq> CallRemove p None))"
  using assms(1)
proof (cases rule: installHook_cases)
  case (died msg)
  then show ?thesis by simp
next
  case (found root)
  let ?f = "filepath_Join P [root, hookPath @ ''commit-msg'']"
  have run: "writeHook ''commit-msg'' ?f (removeOldHook ''commit-msg'' ?f w) = Returns () w1"
    using found(2) by simp
  note fr = first_run [OF run]
  have "\<forall>d. Stat w1 (filepath_Join P [d, ''.git'']) = Stat w (filepath_Join P [d, ''.git''])"
  proof
    fix d
    have "filepath_Join P [d, ''.git''] \<noteq> ?f" using assms(2) by blast
    then have "files w1 (filepath_Join P [d, ''.git'']) = files w (filepath_Join P [d, ''.git''])"
      using fr(6) by blast
    then show "Stat w1 (filepath_Join P [d, ''.git'']) = Stat w (filepath_Join P [d, ''.git''])"
      using fr(4) by (rule Stat_frame [rotated])
  qed
  then have "repoRoot P w1 = Some (Returns root w1)"
    using repoRoot_stable [OF found(1) fr(5)] by blast
  then have "installHook P w1 =
      Some (writeHook ''commit-msg'' ?f (removeOldHook ''commit-msg'' ?f w1))"
    by (rule installHook_found)
  then show ?thesis using second_run [OF fr(1,2,3), of "''commit-msg''"] by simp
qed

text \<open>Claim C3 at a concrete input: a fresh repository.\<close>

theorem installHook_twice_witness:
  "\<exists>w1 evs. installHook unix (repoWorld None nothingDenied 1) = Some (Returns () w1)
      \<and> files w1 hookFilePath = Some (File (hookScript ''commit-msg'') 0x1C0)
      \<and> installHook unix w1 = Some (Returns () (w1\<lparr> trace := trace w1 @ evs \<rparr>))
      \<and> (\<forall>e \<in> set evs. (\<forall>p err. e \<noteq> CallWriteFile p err) \<and> (\<forall>p. e \<noteq> CallRemove p None))"
proof -
  let ?w = "repoWorld None nothingDenied 1"
  have r: "ReadFile ?w hookFilePath \<noteq> Inr oldCommitMsgHook"
    by (simp add: ReadFile_def repoWorld_def nothingDenied_def)
  then have m: "removeOldHook ''commit-msg'' hookFilePath ?w = ?w"
    by (simp add: removeOldHook_eq)
  have st: "\<not> fails ?w SysStat hookFilePath" "files ?w hookFilePath = None"
    by (simp_all add: repoWorld_def nothingDenied_def)
  have wf: "\<not> fails ?w SysWriteFile hookFilePath" "umask ?w = 0x12"
    by (simp_all add: repoWorld_def nothingDenied_def)
  define w1 where "w1 = ?w\<lparr> files := (files ?w)(hookFilePath \<mapsto>
                              File (hookScript ''commit-msg'') (0x1C0 AND NOT (umask ?w))),
                        trace := trace ?w
                        @ (if verbose ?w > 0 then [Diagnostic (''installing '' @ ''commit-msg'' @ '' hook'')] else [])
                        @ [CallWriteFile hookFilePath None] \<rparr>"
  have "installHook unix ?w = Some (writeHook ''commit-msg'' hookFilePath ?w)"
    using installHook_found [OF repoRoot_repoWorld] by (simp add: hookFilePath_Join m)
  then have run: "installHook unix ?w = Some (Returns () w1)"
    using writeHook_missing [OF st, of "''commit-msg''"] wf by (simp add: w1_def)
  have f1: "files w1 hookFilePath = Some (File (hookScript ''commit-msg'') 0x1C0)"
    by (simp add: w1_def wf)
  have apart: "\<forall>d r. filepath_Join unix [d, ''.git''] \<noteq> filepath_Join unix [r, hookPath @ ''commit-msg'']"
    using unix_marker_not_hook by blast
  from installHook_twice [OF run apart] run f1 show ?thesis by blast
qed

end
